theory Spec2Isabelle
  imports Main "HOL-Library.Word"
begin

section \<open>Common: JavaScript outcomes\<close>

text \<open>
  A JavaScript function either returns a value or throws. The only exception the modelled
  code can raise is the \<open>TypeError\<close> of reading a property of \<open>null\<close> or
  \<open>undefined\<close> (or calling a method that is not there). A result is
  \<open>Inr v\<close> for a return and \<open>Inl TypeError\<close> for a throw. A \<open>while\<close>
  loop over a linked structure is a partial function in the option monad: \<open>None\<close> means
  that the loop does not return.
\<close>

datatype js_error = TypeError

section \<open>lib/rules/no-use-before-define.js\<close>

subsection \<open>The syntax tree and the scope data the rule reads\<close>

text \<open>
  Nodes and scopes are objects that point at each other (\<open>parent\<close>, \<open>upper\<close>,
  \<open>variableScope\<close>, \<open>from\<close>), so they live in two stores addressed by identifiers;
  object identity (\<open>===\<close>) is equality of identifiers. A store is total: a JavaScript
  reference always points at an object, while \<open>null\<close>/\<open>undefined\<close> is
  \<open>None\<close>.

  The property \<open>body\<close> is a node on a class and an array on a \<open>ClassBody\<close>.
\<close>

datatype body = NoBody | BodyNode nat | BodyList "nat list"

record node =
  n_type :: string
  n_range :: "nat \<times> nat"
  n_parent :: "nat option"
  n_body :: body
  n_static :: bool
  n_value :: "nat option"
  n_init :: "nat option"
  n_right :: "nat option"
  n_left :: "nat option"
  n_local :: "nat option"
  n_decorators :: "nat list option"

record defn =
  d_type :: string
  d_name :: nat
  d_node :: nat

record variable =
  v_scope :: nat
  v_defs :: "defn list"

record reference =
  r_identifier :: nat
  r_from :: nat
  r_resolved :: "variable option"
  r_init :: bool

record scope =
  s_type :: string
  s_block :: nat
  s_upper :: "nat option"
  s_variableScope :: nat
  s_references :: "reference list"
  s_childScopes :: "nat list"

type_synonym ast = "nat \<Rightarrow> node"
type_synonym scopes = "nat \<Rightarrow> scope"

record options =
  o_functions :: bool
  o_classes :: bool
  o_variables :: bool
  o_allowNamedExports :: bool
  o_enums :: bool
  o_typedefs :: bool
  o_ignoreTypeReferences :: bool

text \<open>The value of \<open>context.options[0]\<close>: an options object, a string, or anything else.\<close>

datatype raw_options = OptObject options | OptString string | OptOther

subsection \<open>Helpers\<close>

text \<open>\<open>SENTINEL_TYPE\<close> and \<open>FOR_IN_OF_TYPE\<close>: the strings the two anchored regular
  expressions accept.\<close>

definition SENTINEL_TYPE :: "string \<Rightarrow> bool" where
  "SENTINEL_TYPE t \<longleftrightarrow>
     t \<in> set [''FunctionDeclaration'', ''FunctionExpression'',
               ''ClassDeclaration'', ''ClassExpression'',
               ''ArrowFunctionExpression'', ''CatchClause'',
               ''ImportDeclaration'', ''ExportNamedDeclaration'']"

definition FOR_IN_OF_TYPE :: "string \<Rightarrow> bool" where
  "FOR_IN_OF_TYPE t \<longleftrightarrow> t \<in> set [''ForInStatement'', ''ForOfStatement'']"

definition parseOptions :: "raw_options \<Rightarrow> options" where
  "parseOptions opts =
     (case opts of
        OptObject obj \<Rightarrow> obj
      | _ \<Rightarrow>
          \<lparr> o_functions = (case opts of OptString s \<Rightarrow> s \<noteq> ''nofunc'' | _ \<Rightarrow> True),
            o_classes = True, o_variables = True, o_allowNamedExports = False,
            o_enums = True, o_typedefs = True, o_ignoreTypeReferences = True \<rparr>)"

text \<open>\<open>isInRange(node, location)\<close>; a missing node is falsy.\<close>

definition isInRange :: "ast \<Rightarrow> nat option \<Rightarrow> nat \<Rightarrow> bool" where
  "isInRange a nd location =
     (case nd of
        None \<Rightarrow> False
      | Some n \<Rightarrow> fst (n_range (a n)) \<le> location \<and> location \<le> snd (n_range (a n)))"

text \<open>\<open>isInClassStaticInitializerRange(node, location)\<close>: \<open>node.body.some(...)\<close>
  throws unless \<open>node.body\<close> is an array.\<close>

definition isStaticInitializerMember :: "ast \<Rightarrow> nat \<Rightarrow> nat \<Rightarrow> bool" where
  "isStaticInitializerMember a location classMember \<longleftrightarrow>
     (n_type (a classMember) = ''StaticBlock'' \<and> isInRange a (Some classMember) location) \<or>
     (n_type (a classMember) = ''PropertyDefinition'' \<and> n_static (a classMember) \<and>
      n_value (a classMember) \<noteq> None \<and> isInRange a (n_value (a classMember)) location)"

definition isInClassStaticInitializerRange :: "ast \<Rightarrow> nat \<Rightarrow> nat \<Rightarrow> js_error + bool" where
  "isInClassStaticInitializerRange a nd location =
     (case n_body (a nd) of
        BodyList members \<Rightarrow> Inr (list_ex (isStaticInitializerMember a location) members)
      | _ \<Rightarrow> Inl TypeError)"

definition isClassStaticInitializerScope :: "ast \<Rightarrow> scope \<Rightarrow> js_error + bool" where
  "isClassStaticInitializerScope a sc =
     (if s_type sc = ''class-static-block'' then Inr True
      else if s_type sc = ''class-field-initializer'' then
        (case n_parent (a (s_block sc)) of
           None \<Rightarrow> Inl TypeError
         | Some propertyDefinition \<Rightarrow> Inr (n_static (a propertyDefinition)))
      else Inr False)"

subsection \<open>isFromSeparateExecutionContext\<close>

partial_function (option) isFromSeparateExecutionContext_loop ::
  "ast \<Rightarrow> scopes \<Rightarrow> variable \<Rightarrow> nat \<Rightarrow> (js_error + bool) option" where
  "isFromSeparateExecutionContext_loop a ss var sc =
     (if s_variableScope (ss (v_scope var)) \<noteq> s_variableScope (ss sc) then
        (case isClassStaticInitializerScope a (ss (s_variableScope (ss sc))) of
           Inl e \<Rightarrow> Some (Inl e)
         | Inr transparent \<Rightarrow>
             if transparent then
               (case s_upper (ss (s_variableScope (ss sc))) of
                  None \<Rightarrow> Some (Inl TypeError)
                | Some up \<Rightarrow> isFromSeparateExecutionContext_loop a ss var up)
             else Some (Inr True))
      else Some (Inr False))"

declare isFromSeparateExecutionContext_loop.simps [code]

definition isFromSeparateExecutionContext ::
  "ast \<Rightarrow> scopes \<Rightarrow> reference \<Rightarrow> (js_error + bool) option" where
  "isFromSeparateExecutionContext a ss ref =
     (case r_resolved ref of
        None \<Rightarrow> Some (Inl TypeError)
      | Some var \<Rightarrow> isFromSeparateExecutionContext_loop a ss var (r_from ref))"


subsection \<open>Sequencing of calls that may throw or not return\<close>

definition andThen ::
  "(js_error + 'a) option \<Rightarrow> ('a \<Rightarrow> (js_error + 'b) option) \<Rightarrow> (js_error + 'b) option" where
  "andThen m f =
     (case m of
        None \<Rightarrow> None
      | Some (Inl e) \<Rightarrow> Some (Inl e)
      | Some (Inr v) \<Rightarrow> f v)"

text \<open>\<open>node.parent.type\<close>, which throws when \<open>node.parent\<close> is \<open>null\<close>.\<close>

definition parentType :: "ast \<Rightarrow> nat \<Rightarrow> js_error + string" where
  "parentType a n =
     (case n_parent (a n) of
        None \<Rightarrow> Inl TypeError
      | Some p \<Rightarrow> Inr (n_type (a p)))"

subsection \<open>isEvaluatedDuringInitialization\<close>

text \<open>The \<open>while (node)\<close> loop of \<open>isEvaluatedDuringInitialization\<close> with the
  \<open>return false\<close> that follows it.\<close>

partial_function (option) initializationWalk ::
  "ast \<Rightarrow> nat \<Rightarrow> nat option \<Rightarrow> (js_error + bool) option" where
  "initializationWalk a location nd =
     (case nd of
        None \<Rightarrow> Some (Inr False)
      | Some n \<Rightarrow>
          if n_type (a n) = ''VariableDeclarator'' then
            (if isInRange a (n_init (a n)) location then Some (Inr True)
             else
               (case n_parent (a n) of
                  None \<Rightarrow> Some (Inl TypeError)
                | Some p \<Rightarrow>
                    (case n_parent (a p) of
                       None \<Rightarrow> Some (Inl TypeError)
                     | Some g \<Rightarrow>
                         if FOR_IN_OF_TYPE (n_type (a g)) \<and> isInRange a (n_right (a g)) location
                         then Some (Inr True)
                         else Some (Inr False))))
          else if n_type (a n) = ''AssignmentPattern'' then
            (if isInRange a (n_right (a n)) location then Some (Inr True)
             else initializationWalk a location (n_parent (a n)))
          else if SENTINEL_TYPE (n_type (a n)) then Some (Inr False)
          else initializationWalk a location (n_parent (a n)))"

declare initializationWalk.simps [code]

definition isEvaluatedDuringInitialization ::
  "ast \<Rightarrow> scopes \<Rightarrow> reference \<Rightarrow> (js_error + bool) option" where
  "isEvaluatedDuringInitialization a ss ref =
     andThen (isFromSeparateExecutionContext a ss ref) (\<lambda>separate.
       if separate then Some (Inr False)
       else
         let location = snd (n_range (a (r_identifier ref))) in
         (case r_resolved ref of
            None \<Rightarrow> Some (Inl TypeError)
          | Some var \<Rightarrow>
              (case v_defs var of
                 [] \<Rightarrow> Some (Inl TypeError)
               | definition # _ \<Rightarrow>
                   if d_type definition = ''ClassName'' then
                     (let classDefinition = d_node definition in
                      if isInRange a (Some classDefinition) location then
                        (case n_body (a classDefinition) of
                           BodyNode classBody \<Rightarrow>
                             (case isInClassStaticInitializerRange a classBody location of
                                Inl e \<Rightarrow> Some (Inl e)
                              | Inr inStatic \<Rightarrow> Some (Inr (\<not> inStatic)))
                         | _ \<Rightarrow> Some (Inl TypeError))
                      else Some (Inr False))
                   else initializationWalk a location (n_parent (a (d_name definition))))))"

subsection \<open>referenceContainsTypeQuery and isClassRefInClassDecorator\<close>

partial_function (option) referenceContainsTypeQuery ::
  "ast \<Rightarrow> nat \<Rightarrow> (js_error + bool) option" where
  "referenceContainsTypeQuery a n =
     (if n_type (a n) = ''TSTypeQuery'' then Some (Inr True)
      else if n_type (a n) = ''TSQualifiedName'' \<or> n_type (a n) = ''Identifier'' then
        (case n_parent (a n) of
           None \<Rightarrow> Some (Inl TypeError)
         | Some p \<Rightarrow> referenceContainsTypeQuery a p)
      else Some (Inr False))"

declare referenceContainsTypeQuery.simps [code]

definition isClassRefInClassDecorator :: "ast \<Rightarrow> variable \<Rightarrow> reference \<Rightarrow> js_error + bool" where
  "isClassRefInClassDecorator a var ref =
     (case v_defs var of
        [] \<Rightarrow> Inl TypeError
      | d0 # _ \<Rightarrow>
          if d_type d0 \<noteq> ''ClassName'' then Inr False
          else
            (case n_decorators (a (d_node d0)) of
               None \<Rightarrow> Inr False
             | Some decorators \<Rightarrow>
                 if decorators = [] then Inr False
                 else Inr (list_ex (\<lambda>deco.
                        fst (n_range (a deco)) \<le> fst (n_range (a (r_identifier ref))) \<and>
                        snd (n_range (a (r_identifier ref))) \<le> snd (n_range (a deco)))
                      decorators)))"

subsection \<open>shouldCheck\<close>

text \<open>The loop \<open>while (currentNode.type === "TSQualifiedName") currentNode = currentNode.left\<close>;
  it returns the node it stops at.\<close>

partial_function (option) qualifiedNameLeftmost ::
  "ast \<Rightarrow> nat \<Rightarrow> (js_error + nat) option" where
  "qualifiedNameLeftmost a currentNode =
     (if n_type (a currentNode) = ''TSQualifiedName'' then
        (case n_left (a currentNode) of
           None \<Rightarrow> Some (Inl TypeError)
         | Some l \<Rightarrow> qualifiedNameLeftmost a l)
      else Some (Inr currentNode))"

declare qualifiedNameLeftmost.simps [code]

definition shouldCheck ::
  "options \<Rightarrow> ast \<Rightarrow> scopes \<Rightarrow> reference \<Rightarrow> (js_error + bool) option" where
  "shouldCheck opts a ss ref =
     (if r_init ref then Some (Inr False)
      else
        let identifier = r_identifier ref in
        andThen
          (if o_allowNamedExports opts then
             (case n_parent (a identifier) of
                None \<Rightarrow> Some (Inl TypeError)
              | Some p \<Rightarrow>
                  Some (Inr (n_type (a p) = ''ExportSpecifier'' \<and> n_local (a p) = Some identifier)))
           else Some (Inr False))
          (\<lambda>namedExport.
        if namedExport then Some (Inr False)
        else
          (case r_resolved ref of
             None \<Rightarrow> Some (Inr False)
           | Some var \<Rightarrow>
          (case v_defs var of
             [] \<Rightarrow> Some (Inr False)
           | d0 # _ \<Rightarrow>
          let definitionType = d_type d0 in
          if \<not> o_functions opts \<and> definitionType = ''FunctionName'' then Some (Inr False)
          else
            andThen
              (if (\<not> o_variables opts \<and> definitionType = ''Variable'') \<or>
                  (\<not> o_classes opts \<and> definitionType = ''ClassName'')
               then isFromSeparateExecutionContext a ss ref
               else Some (Inr False))
              (\<lambda>allowedByOptions.
            if allowedByOptions then Some (Inr False)
            else if \<not> o_enums opts \<and> definitionType = ''TSEnumName'' then Some (Inr False)
            else if \<not> o_typedefs opts \<and> definitionType = ''Type'' then Some (Inr False)
            else
              andThen
                (if o_ignoreTypeReferences opts then
                   andThen (referenceContainsTypeQuery a identifier) (\<lambda>typeQuery.
                     if typeQuery then Some (Inr True)
                     else andThen (Some (parentType a identifier)) (\<lambda>t.
                       Some (Inr (t = ''TSTypeReference''))))
                 else Some (Inr False))
                (\<lambda>typeReference.
              if typeReference then Some (Inr False)
              else
                andThen (Some (parentType a identifier)) (\<lambda>t.
                  if t = ''TSQualifiedName'' then
                    (case n_parent (a identifier) of
                       None \<Rightarrow> Some (Inl TypeError)
                     | Some p \<Rightarrow>
                         andThen (qualifiedNameLeftmost a p) (\<lambda>currentNode.
                           Some (Inr (currentNode = identifier))))
                  else
                    andThen (Some (isClassRefInClassDecorator a var ref)) (\<lambda>inDecorator.
                      Some (Inr (\<not> inDecorator))))))))))"

subsection \<open>checkReferencesInScope\<close>

text \<open>\<open>scope.references.filter(shouldCheck)\<close>.\<close>

fun filterShouldCheck ::
  "options \<Rightarrow> ast \<Rightarrow> scopes \<Rightarrow> reference list \<Rightarrow> (js_error + reference list) option" where
  "filterShouldCheck opts a ss [] = Some (Inr [])"
| "filterShouldCheck opts a ss (ref # refs) =
     andThen (shouldCheck opts a ss ref) (\<lambda>keep.
       andThen (filterShouldCheck opts a ss refs) (\<lambda>kept.
         Some (Inr (if keep then ref # kept else kept))))"

text \<open>The condition under which the callback of \<open>forEach\<close> calls \<open>context.report\<close>.\<close>

definition usedBeforeDefined :: "ast \<Rightarrow> scopes \<Rightarrow> reference \<Rightarrow> (js_error + bool) option" where
  "usedBeforeDefined a ss ref =
     (case r_resolved ref of
        None \<Rightarrow> Some (Inl TypeError)
      | Some var \<Rightarrow>
          (case v_defs var of
             [] \<Rightarrow> Some (Inl TypeError)
           | d0 # _ \<Rightarrow>
               let definitionIdentifier = d_name d0 in
               if snd (n_range (a (r_identifier ref))) < snd (n_range (a definitionIdentifier))
               then Some (Inr True)
               else
                 andThen (isEvaluatedDuringInitialization a ss ref) (\<lambda>during.
                   if during then
                     andThen (Some (parentType a (r_identifier ref))) (\<lambda>t.
                       Some (Inr (t \<noteq> ''TSTypeReference'')))
                   else Some (Inr False))))"

text \<open>The \<open>forEach\<close> over the filtered references. A report is the reference whose
  identifier is passed to \<open>context.report\<close> as \<open>node\<close>.\<close>

fun reportReferences ::
  "ast \<Rightarrow> scopes \<Rightarrow> reference list \<Rightarrow> (js_error + reference list) option" where
  "reportReferences a ss [] = Some (Inr [])"
| "reportReferences a ss (ref # refs) =
     andThen (usedBeforeDefined a ss ref) (\<lambda>report.
       andThen (reportReferences a ss refs) (\<lambda>reports.
         Some (Inr (if report then ref # reports else reports))))"

definition checkReferences ::
  "options \<Rightarrow> ast \<Rightarrow> scopes \<Rightarrow> reference list \<Rightarrow> (js_error + reference list) option" where
  "checkReferences opts a ss refs =
     andThen (filterShouldCheck opts a ss refs) (reportReferences a ss)"

text \<open>
  \<open>checkReferencesInScope\<close> recurses over \<open>scope.childScopes\<close>. The recursion is written
  with the list of scopes still to visit: the references of the first scope are checked (by
  \<open>check\<close>, which is \<open>checkReferences\<close> with the rule's options), then its child scopes
  in order, then the scopes that were waiting.
\<close>

definition appendReports ::
  "reference list \<Rightarrow> js_error + reference list \<Rightarrow> js_error + reference list" where
  "appendReports reports r =
     (case r of
        Inl e \<Rightarrow> Inl e
      | Inr later \<Rightarrow> Inr (reports @ later))"

partial_function (option) checkReferencesInScopes ::
  "(reference list \<Rightarrow> (js_error + reference list) option) \<Rightarrow> scopes \<Rightarrow> nat list \<Rightarrow>
   (js_error + reference list) option" where
  "checkReferencesInScopes check ss todo =
     (case todo of
        [] \<Rightarrow> Some (Inr [])
      | sc # rest \<Rightarrow>
          (case check (s_references (ss sc)) of
             None \<Rightarrow> None
           | Some r \<Rightarrow>
               (case r of
                  Inl e \<Rightarrow> Some (Inl e)
                | Inr reports \<Rightarrow>
                    Option.bind
                      (checkReferencesInScopes check ss (s_childScopes (ss sc) @ rest))
                      (\<lambda>r'. Some (appendReports reports r')))))"

declare checkReferencesInScopes.simps [code]

definition checkReferencesInScope ::
  "options \<Rightarrow> ast \<Rightarrow> scopes \<Rightarrow> nat \<Rightarrow> (js_error + reference list) option" where
  "checkReferencesInScope opts a ss sc =
     checkReferencesInScopes (checkReferences opts a ss) ss [sc]"


section \<open>lib/rules/no-labels.js\<close>

subsection \<open>The statements the rule looks at\<close>

text \<open>
  A \<open>LabeledStatement\<close> carries \<open>label.name\<close> and \<open>body\<close>; a \<open>BreakStatement\<close> or
  \<open>ContinueStatement\<close> carries \<open>label.name\<close>, or nothing when \<open>label\<close> is \<open>null\<close>.
  \<open>Other t cs\<close> is a node of any other type \<open>t\<close> with the children \<open>cs\<close>.
\<close>

datatype stmt =
    LabeledStatement string stmt
  | BreakStatement "string option"
  | ContinueStatement "string option"
  | Other string "stmt list"

fun nodeType :: "stmt \<Rightarrow> string" where
  "nodeType (LabeledStatement l b) = ''LabeledStatement''"
| "nodeType (BreakStatement l) = ''BreakStatement''"
| "nodeType (ContinueStatement l) = ''ContinueStatement''"
| "nodeType (Other t cs) = t"

record labels_options =
  allowLoop :: bool
  allowSwitch :: bool

text \<open>The rule's closure state: \<open>scopeInfo\<close> is a linked list of \<open>{label, kind, upper}\<close>,
  \<open>null\<close> when empty; the reports are the calls of \<open>context.report\<close> in order.\<close>

record labels_state =
  scopeInfo :: "(string \<times> string) list"
  reported :: "(string \<times> stmt) list"

subsection \<open>The rule\<close>

text \<open>\<open>astUtils.isLoop\<close> is defined in \<open>lib/rules/utils/ast-utils.js\<close>; it is a parameter
  here.\<close>

definition getBodyKind :: "(stmt \<Rightarrow> bool) \<Rightarrow> stmt \<Rightarrow> string" where
  "getBodyKind isLoop nd =
     (if isLoop nd then ''loop''
      else if nodeType nd = ''SwitchStatement'' then ''switch''
      else ''other'')"

definition isAllowed :: "labels_options \<Rightarrow> string \<Rightarrow> bool" where
  "isAllowed opts kind =
     (if kind = ''loop'' then allowLoop opts
      else if kind = ''switch'' then allowSwitch opts
      else False)"

fun getKind :: "(string \<times> string) list \<Rightarrow> string \<Rightarrow> string" where
  "getKind [] label = ''other''"
| "getKind ((l, kind) # upper) label = (if l = label then kind else getKind upper label)"

definition report :: "string \<Rightarrow> stmt \<Rightarrow> labels_state \<Rightarrow> labels_state" where
  "report messageId nd st = st\<lparr>reported := reported st @ [(messageId, nd)]\<rparr>"

text \<open>The handlers \<open>LabeledStatement\<close>, \<open>BreakStatement\<close> and \<open>ContinueStatement\<close>.\<close>

fun labels_enter ::
  "labels_options \<Rightarrow> (stmt \<Rightarrow> bool) \<Rightarrow> stmt \<Rightarrow> labels_state \<Rightarrow> js_error + labels_state" where
  "labels_enter opts isLoop (LabeledStatement l b) st =
     Inr (st\<lparr>scopeInfo := (l, getBodyKind isLoop b) # scopeInfo st\<rparr>)"
| "labels_enter opts isLoop (BreakStatement lbl) st =
     (case lbl of
        None \<Rightarrow> Inr st
      | Some l \<Rightarrow>
          if \<not> isAllowed opts (getKind (scopeInfo st) l)
          then Inr (report ''unexpectedLabelInBreak'' (BreakStatement lbl) st)
          else Inr st)"
| "labels_enter opts isLoop (ContinueStatement lbl) st =
     (case lbl of
        None \<Rightarrow> Inr st
      | Some l \<Rightarrow>
          if \<not> isAllowed opts (getKind (scopeInfo st) l)
          then Inr (report ''unexpectedLabelInContinue'' (ContinueStatement lbl) st)
          else Inr st)"
| "labels_enter opts isLoop (Other t cs) st = Inr st"

text \<open>The handler \<open>LabeledStatement:exit\<close>; \<open>scopeInfo.kind\<close> throws when \<open>scopeInfo\<close> is
  \<open>null\<close>.\<close>

fun labels_exit :: "labels_options \<Rightarrow> stmt \<Rightarrow> labels_state \<Rightarrow> js_error + labels_state" where
  "labels_exit opts (LabeledStatement l b) st =
     (case scopeInfo st of
        [] \<Rightarrow> Inl TypeError
      | (label, kind) # upper \<Rightarrow>
          Inr ((if \<not> isAllowed opts kind
                then report ''unexpectedLabel'' (LabeledStatement l b) st
                else st)\<lparr>scopeInfo := upper\<rparr>))"
| "labels_exit opts nd st = Inr st"

subsection \<open>The traversal\<close>

text \<open>
  Modelled from the spec: the traversal engine, which is outside the rule files. A rule gives
  the engine a handler for the entry and a handler for the exit of a node; a rule without a
  handler for a node type leaves the state as it is.
\<close>

record 'st handlers =
  on_enter :: "stmt \<Rightarrow> 'st \<Rightarrow> js_error + 'st"
  on_exit :: "stmt \<Rightarrow> 'st \<Rightarrow> js_error + 'st"

text \<open>Modelled from the spec: the visit of a node without children, entry handler then exit
  handler.\<close>

definition visitLeaf ::
  "'st handlers \<Rightarrow> stmt \<Rightarrow> 'st \<times> (stmt \<times> 'st) list \<Rightarrow> js_error + 'st \<times> (stmt \<times> 'st) list" where
  "visitLeaf h nd s =
     (case on_enter h nd (fst s) of
        Inl e \<Rightarrow> Inl e
      | Inr st1 \<Rightarrow>
          (case on_exit h nd st1 of
             Inl e \<Rightarrow> Inl e
           | Inr st2 \<Rightarrow> Inr (st2, snd s @ [(nd, fst s)])))"

text \<open>Modelled from the spec: the visit of the label of a statement, if it has one.\<close>

definition visitLabel ::
  "'st handlers \<Rightarrow> string option \<Rightarrow> 'st \<times> (stmt \<times> 'st) list \<Rightarrow>
   js_error + 'st \<times> (stmt \<times> 'st) list" where
  "visitLabel h lbl s =
     (case lbl of
        None \<Rightarrow> Inr s
      | Some l \<Rightarrow> visitLeaf h (Other ''Identifier'' []) s)"

text \<open>Modelled from the spec: the exit handler of a node after its children, unless a handler
  threw before.\<close>

definition finish ::
  "'st handlers \<Rightarrow> stmt \<Rightarrow> js_error + 'st \<times> (stmt \<times> 'st) list \<Rightarrow>
   js_error + 'st \<times> (stmt \<times> 'st) list" where
  "finish h nd r =
     (case r of
        Inl e \<Rightarrow> Inl e
      | Inr s \<Rightarrow>
          (case on_exit h nd (fst s) of
             Inl e \<Rightarrow> Inl e
           | Inr st \<Rightarrow> Inr (st, snd s)))"

text \<open>
  Modelled from the spec: the traversal of section 4.3 of the specification, one depth-first
  walk that calls the entry handler of a node, then visits the children in order, each
  subtree finished before the next, then calls the exit handler of the node; a handler that
  throws ends the run. The children of a \<open>LabeledStatement\<close> are its label and its body,
  the child of a labelled \<open>break\<close> or \<open>continue\<close> is its label; the label is an
  \<open>Identifier\<close> without children.

  Beside the rule's state the traversal keeps the list of entry-handler calls made so far,
  each with the state the handler was called in.
\<close>

fun traverse ::
  "'st handlers \<Rightarrow> stmt \<Rightarrow> 'st \<times> (stmt \<times> 'st) list \<Rightarrow> js_error + 'st \<times> (stmt \<times> 'st) list"
  and traverseChildren ::
  "'st handlers \<Rightarrow> stmt list \<Rightarrow> 'st \<times> (stmt \<times> 'st) list \<Rightarrow> js_error + 'st \<times> (stmt \<times> 'st) list"
  where
  "traverse h (LabeledStatement l b) s =
     (case on_enter h (LabeledStatement l b) (fst s) of
        Inl e \<Rightarrow> Inl e
      | Inr st1 \<Rightarrow>
          (case visitLabel h (Some l) (st1, snd s @ [(LabeledStatement l b, fst s)]) of
             Inl e \<Rightarrow> Inl e
           | Inr s2 \<Rightarrow> finish h (LabeledStatement l b) (traverse h b s2)))"
| "traverse h (BreakStatement lbl) s =
     (case on_enter h (BreakStatement lbl) (fst s) of
        Inl e \<Rightarrow> Inl e
      | Inr st1 \<Rightarrow>
          finish h (BreakStatement lbl)
            (visitLabel h lbl (st1, snd s @ [(BreakStatement lbl, fst s)])))"
| "traverse h (ContinueStatement lbl) s =
     (case on_enter h (ContinueStatement lbl) (fst s) of
        Inl e \<Rightarrow> Inl e
      | Inr st1 \<Rightarrow>
          finish h (ContinueStatement lbl)
            (visitLabel h lbl (st1, snd s @ [(ContinueStatement lbl, fst s)])))"
| "traverse h (Other t cs) s =
     (case on_enter h (Other t cs) (fst s) of
        Inl e \<Rightarrow> Inl e
      | Inr st1 \<Rightarrow>
          finish h (Other t cs) (traverseChildren h cs (st1, snd s @ [(Other t cs, fst s)])))"
| "traverseChildren h [] s = Inr s"
| "traverseChildren h (c # cs) s =
     (case traverse h c s of
        Inl e \<Rightarrow> Inl e
      | Inr s' \<Rightarrow> traverseChildren h cs s')"

definition noLabels :: "labels_options \<Rightarrow> (stmt \<Rightarrow> bool) \<Rightarrow> labels_state handlers" where
  "noLabels opts isLoop = \<lparr>on_enter = labels_enter opts isLoop, on_exit = labels_exit opts\<rparr>"

subsection \<open>The labels that enclose a jump\<close>

text \<open>
  Every \<open>BreakStatement\<close> and \<open>ContinueStatement\<close> of a tree, in source order, each with the
  labels of the \<open>LabeledStatement\<close>s around it, innermost first; \<open>outer\<close> are the labels around
  the tree itself. This is read off the syntax alone.
\<close>

fun isJump :: "stmt \<Rightarrow> bool" where
  "isJump (BreakStatement lbl) = True"
| "isJump (ContinueStatement lbl) = True"
| "isJump nd = False"

fun enclosingLabels :: "string list \<Rightarrow> stmt \<Rightarrow> (stmt \<times> string list) list"
  and enclosingLabelsList :: "string list \<Rightarrow> stmt list \<Rightarrow> (stmt \<times> string list) list" where
  "enclosingLabels outer (LabeledStatement l b) = enclosingLabels (l # outer) b"
| "enclosingLabels outer (BreakStatement lbl) = [(BreakStatement lbl, outer)]"
| "enclosingLabels outer (ContinueStatement lbl) = [(ContinueStatement lbl, outer)]"
| "enclosingLabels outer (Other t cs) = enclosingLabelsList outer cs"
| "enclosingLabelsList outer [] = []"
| "enclosingLabelsList outer (c # cs) = enclosingLabels outer c @ enclosingLabelsList outer cs"

text \<open>The entry-handler calls on jumps, each with the labels on \<open>scopeInfo\<close> at that
  moment, innermost first.\<close>

definition jumpsSeen :: "(stmt \<times> labels_state) list \<Rightarrow> (stmt \<times> string list) list" where
  "jumpsSeen calls =
     map (\<lambda>c. (fst c, map fst (scopeInfo (snd c)))) (filter (\<lambda>c. isJump (fst c)) calls)"


definition restores :: "labels_options \<Rightarrow> (stmt \<Rightarrow> bool) \<Rightarrow> stmt \<Rightarrow> bool" where
  "restores opts isLoop nd \<longleftrightarrow>
     (\<forall>st calls. \<exists>st' calls'.
        traverse (noLabels opts isLoop) nd (st, calls) = Inr (st', calls @ calls') \<and>
        scopeInfo st' = scopeInfo st \<and>
        jumpsSeen calls' = enclosingLabels (map fst (scopeInfo st)) nd)"

section \<open>lib/rules/quotes.js\<close>

subsection \<open>Strings\<close>

text \<open>A JavaScript string is a sequence of UTF-16 code units.\<close>

type_synonym jsstring = "16 word list"

definition DQUOTE :: "16 word" where "DQUOTE = 0x22"
definition SQUOTE :: "16 word" where "SQUOTE = 0x27"
definition BACKTICK :: "16 word" where "BACKTICK = 0x60"
definition BACKSLASH :: "16 word" where "BACKSLASH = 0x5C"
definition DOLLAR :: "16 word" where "DOLLAR = 0x24"
definition LBRACE :: "16 word" where "LBRACE = 0x7B"
definition LF :: "16 word" where "LF = 0x0A"
definition CR :: "16 word" where "CR = 0x0D"
definition LETTER_n :: "16 word" where "LETTER_n = 0x6E"

subsection \<open>QUOTE_SETTINGS and convert\<close>

datatype quote_option = Double | Single | Backtick

record quote_setting =
  quote :: "16 word"
  alternateQuote :: "16 word"
  description :: string

fun QUOTE_SETTINGS :: "quote_option \<Rightarrow> quote_setting" where
  "QUOTE_SETTINGS Double =
     \<lparr>quote = DQUOTE, alternateQuote = SQUOTE, description = ''doublequote''\<rparr>"
| "QUOTE_SETTINGS Single =
     \<lparr>quote = SQUOTE, alternateQuote = DQUOTE, description = ''singlequote''\<rparr>"
| "QUOTE_SETTINGS Backtick =
     \<lparr>quote = BACKTICK, alternateQuote = DQUOTE, description = ''backtick''\<rparr>"

text \<open>
  One match of the regular expression
  \<^verbatim>\<open>/\\(\$\{|\r\n?|\n|.)|["'`]|\$\{|(\r\n?|\n)/gu\<close>: the matched text and the two capture
  groups \<open>escaped\<close> and \<open>newline\<close>, \<open>None\<close> for a group that did not take part.
\<close>

record regex_match =
  m_match :: jsstring
  m_escaped :: "jsstring option"
  m_newline :: "jsstring option"

text \<open>With the flag \<open>u\<close> the dot matches one code point, a surrogate pair or a single code
  unit, that is not a line terminator.\<close>

definition isLineTerminator :: "16 word \<Rightarrow> bool" where
  "isLineTerminator c \<longleftrightarrow> c = LF \<or> c = CR \<or> c = 0x2028 \<or> c = 0x2029"

definition isHighSurrogate :: "16 word \<Rightarrow> bool" where
  "isHighSurrogate c \<longleftrightarrow> 0xD800 \<le> c \<and> c \<le> 0xDBFF"

definition isLowSurrogate :: "16 word \<Rightarrow> bool" where
  "isLowSurrogate c \<longleftrightarrow> 0xDC00 \<le> c \<and> c \<le> 0xDFFF"

text \<open>The part of the first alternative after the backslash:
  \<^verbatim>\<open>(\$\{|\r\n?|\n|.)\<close> at the head of a string.\<close>

fun matchEscaped :: "jsstring \<Rightarrow> jsstring option" where
  "matchEscaped [] = None"
| "matchEscaped [c] = (if c = CR \<or> c = LF \<or> \<not> isLineTerminator c then Some [c] else None)"
| "matchEscaped (c # d # rest) =
     (if c = DOLLAR \<and> d = LBRACE then Some [c, d]
      else if c = CR then (if d = LF then Some [c, d] else Some [c])
      else if c = LF then Some [c]
      else if isLineTerminator c then None
      else if isHighSurrogate c \<and> isLowSurrogate d then Some [c, d]
      else Some [c])"

text \<open>The whole expression at the head of a string; the alternatives are tried in order.\<close>

definition matchAt :: "jsstring \<Rightarrow> regex_match option" where
  "matchAt s =
     (case s of
        [] \<Rightarrow> None
      | c # rest \<Rightarrow>
          if c = BACKSLASH \<and> matchEscaped rest \<noteq> None then
            Some \<lparr>m_match = c # the (matchEscaped rest), m_escaped = matchEscaped rest,
                  m_newline = None\<rparr>
          else if c = DQUOTE \<or> c = SQUOTE \<or> c = BACKTICK then
            Some \<lparr>m_match = [c], m_escaped = None, m_newline = None\<rparr>
          else if c = DOLLAR \<and> take 1 rest = [LBRACE] then
            Some \<lparr>m_match = [DOLLAR, LBRACE], m_escaped = None, m_newline = None\<rparr>
          else if c = CR then
            (if take 1 rest = [LF]
             then Some \<lparr>m_match = [CR, LF], m_escaped = None, m_newline = Some [CR, LF]\<rparr>
             else Some \<lparr>m_match = [CR], m_escaped = None, m_newline = Some [CR]\<rparr>)
          else if c = LF then
            Some \<lparr>m_match = [LF], m_escaped = None, m_newline = Some [LF]\<rparr>
          else None)"

text \<open>The replacement callback \<open>(match, escaped, newline) => ...\<close>.\<close>

definition replacer :: "16 word \<Rightarrow> 16 word \<Rightarrow> regex_match \<Rightarrow> jsstring" where
  "replacer newQuote oldQuote m =
     (if m_escaped m = Some [oldQuote] \<or>
         (oldQuote = BACKTICK \<and> m_escaped m = Some [DOLLAR, LBRACE])
      then the (m_escaped m)
      else if m_match m = [newQuote] \<or> (newQuote = BACKTICK \<and> m_match m = [DOLLAR, LBRACE])
      then BACKSLASH # m_match m
      else if m_newline m \<noteq> None \<and> oldQuote = BACKTICK
      then [BACKSLASH, LETTER_n]
      else m_match m)"

text \<open>\<open>String.prototype.replace\<close> with a global expression: every match, from left to
  right, is replaced; a code unit where nothing matches is kept.\<close>

fun replaceAll :: "16 word \<Rightarrow> 16 word \<Rightarrow> jsstring \<Rightarrow> jsstring" where
  "replaceAll newQuote oldQuote [] = []"
| "replaceAll newQuote oldQuote (c # rest) =
     (case matchAt (c # rest) of
        None \<Rightarrow> c # replaceAll newQuote oldQuote rest
      | Some m \<Rightarrow>
          replacer newQuote oldQuote m @
          replaceAll newQuote oldQuote (drop (length (m_match m) - 1) rest))"

text \<open>\<open>convert\<close>; \<open>str.slice(1, -1)\<close> drops the first and the last code unit. On the empty
  string \<open>str[0]\<close> is \<open>undefined\<close> and the slice is empty.\<close>

definition convert :: "quote_setting \<Rightarrow> jsstring \<Rightarrow> jsstring" where
  "convert setting str =
     (let newQuote = quote setting in
      case str of
        [] \<Rightarrow> [newQuote] @ [] @ [newQuote]
      | oldQuote # _ \<Rightarrow>
          if newQuote = oldQuote then str
          else [newQuote] @ replaceAll newQuote oldQuote (butlast (tl str)) @ [newQuote])"


subsection \<open>The nodes the quotes rule reads\<close>







subsection \<open>The rule\<close>

















section \<open>Notions used to state the properties\<close>

subsection \<open>Scope stores that list enclosing scopes first\<close>

text \<open>
  The scope tree is acyclic. In a store this is the numbering in which an enclosing scope
  comes before the scopes inside it: \<open>upper\<close> is a smaller identifier and \<open>variableScope\<close> is
  the scope itself or a smaller one. In addition the scope of a class static block or of a
  class field initializer has an \<open>upper\<close> scope (that of the class), and the block of a field
  initializer scope has a parent (the \<open>PropertyDefinition\<close>). \<open>n\<close> bounds the identifiers in
  use.
\<close>

definition scopeWellFormed :: "ast \<Rightarrow> scopes \<Rightarrow> nat \<Rightarrow> bool" where
  "scopeWellFormed a ss sc \<longleftrightarrow>
     s_variableScope (ss sc) \<le> sc \<and>
     (case s_upper (ss sc) of
        None \<Rightarrow> s_type (ss sc) \<noteq> ''class-static-block'' \<and>
                s_type (ss sc) \<noteq> ''class-field-initializer''
      | Some up \<Rightarrow> up < sc) \<and>
     (s_type (ss sc) \<noteq> ''class-field-initializer'' \<or> n_parent (a (s_block (ss sc))) \<noteq> None)"

definition scopesWellFormed :: "ast \<Rightarrow> scopes \<Rightarrow> nat \<Rightarrow> bool" where
  "scopesWellFormed a ss n \<longleftrightarrow> list_all (scopeWellFormed a ss) [0..<n]"

subsection \<open>Reaching the variable scope of the binding\<close>

text \<open>
  The ascent in the words of the specification: from a scope go to its variable scope; if
  that is the variable scope of the binding, the binding is reached; if it is transparent,
  go on from its \<open>upper\<close> scope. Which scopes are transparent is a parameter.
\<close>

inductive reachesBinding :: "(scope \<Rightarrow> bool) \<Rightarrow> scopes \<Rightarrow> nat \<Rightarrow> nat \<Rightarrow> bool"
  for transparent :: "scope \<Rightarrow> bool" and ss :: scopes and target :: nat where
  arrived: "s_variableScope (ss sc) = target \<Longrightarrow> reachesBinding transparent ss target sc"
| through: "s_variableScope (ss sc) \<noteq> target \<Longrightarrow>
            transparent (ss (s_variableScope (ss sc))) \<Longrightarrow>
            s_upper (ss (s_variableScope (ss sc))) = Some up \<Longrightarrow>
            reachesBinding transparent ss target up \<Longrightarrow>
            reachesBinding transparent ss target sc"

text \<open>Every class static block scope and every class field initializer scope.\<close>

definition initializerScope :: "scope \<Rightarrow> bool" where
  "initializerScope sc \<longleftrightarrow>
     s_type sc = ''class-static-block'' \<or> s_type sc = ''class-field-initializer''"

text \<open>Every class static block scope and the initializer scope of every static field.\<close>

definition staticInitializerScope :: "ast \<Rightarrow> scope \<Rightarrow> bool" where
  "staticInitializerScope a sc \<longleftrightarrow>
     s_type sc = ''class-static-block'' \<or>
     (s_type sc = ''class-field-initializer'' \<and>
      (case n_parent (a (s_block sc)) of
         None \<Rightarrow> False
       | Some propertyDefinition \<Rightarrow> n_static (a propertyDefinition)))"

subsection \<open>The walk up to a sentinel\<close>

text \<open>The loop of \<open>isEvaluatedDuringInitialization\<close> goes on from a node to its parent when
  the node is neither a \<open>VariableDeclarator\<close>, nor an \<open>AssignmentPattern\<close> whose right side
  holds the location, nor of a sentinel type.\<close>

definition walkContinues :: "ast \<Rightarrow> nat \<Rightarrow> nat \<Rightarrow> bool" where
  "walkContinues a location n \<longleftrightarrow>
     n_type (a n) \<noteq> ''VariableDeclarator'' \<and>
     (if n_type (a n) = ''AssignmentPattern'' then \<not> isInRange a (n_right (a n)) location
      else \<not> SENTINEL_TYPE (n_type (a n)))"

text \<open>\<open>walkCrossesSentinel a location n path\<close>: \<open>path\<close> lists the ancestors of \<open>n\<close> in
  order, the loop goes on at every node before the last, and the last node is of a sentinel
  type.\<close>

fun walkCrossesSentinel :: "ast \<Rightarrow> nat \<Rightarrow> nat \<Rightarrow> nat list \<Rightarrow> bool" where
  "walkCrossesSentinel a location n [] = SENTINEL_TYPE (n_type (a n))"
| "walkCrossesSentinel a location n (p # path) =
     (walkContinues a location n \<and> n_parent (a n) = Some p \<and>
      walkCrossesSentinel a location p path)"

section \<open>Example programs\<close>

text \<open>
  The syntax trees of small programs, with the ranges of the source text, and the scopes,
  variables and references that the scope analysis attaches to them. The scope analysis is
  outside the rule files; the data follow section 4.1 of the specification: a reference
  resolves to the variable of the nearest enclosing scope that declares its name, \<open>var\<close>
  binds in the function or program scope, the name of a class is also bound in the scope of
  the class, and \<open>init\<close> marks the binding target of an initializing construct. Node and
  scope identifiers are positions in a list; an identifier beyond the list is an empty node
  or scope.
\<close>

definition storeOf :: "'a \<Rightarrow> 'a list \<Rightarrow> nat \<Rightarrow> 'a" where
  "storeOf dflt xs i = (if i < length xs then xs ! i else dflt)"

definition mkNode :: "string \<Rightarrow> nat \<times> nat \<Rightarrow> nat option \<Rightarrow> node" where
  "mkNode t r p =
     \<lparr>n_type = t, n_range = r, n_parent = p, n_body = NoBody, n_static = False,
      n_value = None, n_init = None, n_right = None, n_left = None, n_local = None,
      n_decorators = None\<rparr>"

definition mkScope ::
  "string \<Rightarrow> nat \<Rightarrow> nat option \<Rightarrow> nat \<Rightarrow> reference list \<Rightarrow> nat list \<Rightarrow> scope" where
  "mkScope t b up vs refs children =
     \<lparr>s_type = t, s_block = b, s_upper = up, s_variableScope = vs, s_references = refs,
      s_childScopes = children\<rparr>"

definition astOf :: "node list \<Rightarrow> ast" where
  "astOf = storeOf (mkNode [] (0, 0) None)"

definition scopesOf :: "scope list \<Rightarrow> scopes" where
  "scopesOf = storeOf (mkScope ''global'' 0 None 0 [] [])"

definition defaultOptions :: options where
  "defaultOptions = parseOptions OptOther"

subsection \<open>\<^verbatim>\<open>var a = a;\<close>\<close>

definition varA_ast :: ast where
  "varA_ast = astOf
     [mkNode ''Program'' (0, 10) None,
      mkNode ''VariableDeclaration'' (0, 10) (Some 0),
      (mkNode ''VariableDeclarator'' (4, 9) (Some 1))\<lparr>n_init := Some 4\<rparr>,
      mkNode ''Identifier'' (4, 5) (Some 2),
      mkNode ''Identifier'' (8, 9) (Some 2)]"

definition varA_variable :: variable where
  "varA_variable = \<lparr>v_scope = 0, v_defs = [\<lparr>d_type = ''Variable'', d_name = 3, d_node = 2\<rparr>]\<rparr>"

definition varA_init :: reference where
  "varA_init =
     \<lparr>r_identifier = 3, r_from = 0, r_resolved = Some varA_variable, r_init = True\<rparr>"

definition varA_use :: reference where
  "varA_use =
     \<lparr>r_identifier = 4, r_from = 0, r_resolved = Some varA_variable, r_init = False\<rparr>"

definition varA_scopes :: scopes where
  "varA_scopes = scopesOf [mkScope ''global'' 0 None 0 [varA_init, varA_use] []]"

subsection \<open>\<^verbatim>\<open>function f(){} f();\<close>\<close>

definition funcF_ast :: ast where
  "funcF_ast = astOf
     [mkNode ''Program'' (0, 19) None,
      mkNode ''FunctionDeclaration'' (0, 14) (Some 0),
      mkNode ''Identifier'' (9, 10) (Some 1),
      mkNode ''BlockStatement'' (12, 14) (Some 1),
      mkNode ''ExpressionStatement'' (15, 19) (Some 0),
      mkNode ''CallExpression'' (15, 18) (Some 4),
      mkNode ''Identifier'' (15, 16) (Some 5)]"

definition funcF_variable :: variable where
  "funcF_variable =
     \<lparr>v_scope = 0, v_defs = [\<lparr>d_type = ''FunctionName'', d_name = 2, d_node = 1\<rparr>]\<rparr>"

definition funcF_call :: reference where
  "funcF_call =
     \<lparr>r_identifier = 6, r_from = 0, r_resolved = Some funcF_variable, r_init = False\<rparr>"

definition funcF_scopes :: scopes where
  "funcF_scopes = scopesOf
     [mkScope ''global'' 0 None 0 [funcF_call] [1],
      mkScope ''function'' 1 (Some 0) 1 [] []]"

subsection \<open>\<^verbatim>\<open>class C { static foo = 1; static { bar = C; } }\<close>\<close>

definition staticC_ast :: ast where
  "staticC_ast = astOf
     [mkNode ''Program'' (0, 47) None,
      (mkNode ''ClassDeclaration'' (0, 47) (Some 0))\<lparr>n_body := BodyNode 3\<rparr>,
      mkNode ''Identifier'' (6, 7) (Some 1),
      (mkNode ''ClassBody'' (8, 47) (Some 1))\<lparr>n_body := BodyList [4, 7]\<rparr>,
      (mkNode ''PropertyDefinition'' (10, 25) (Some 3))\<lparr>n_static := True, n_value := Some 6\<rparr>,
      mkNode ''Identifier'' (17, 20) (Some 4),
      mkNode ''Literal'' (23, 24) (Some 4),
      (mkNode ''StaticBlock'' (26, 45) (Some 3))\<lparr>n_body := BodyList [8]\<rparr>,
      mkNode ''ExpressionStatement'' (35, 43) (Some 7),
      (mkNode ''AssignmentExpression'' (35, 42) (Some 8))\<lparr>n_left := Some 10, n_right := Some 11\<rparr>,
      mkNode ''Identifier'' (35, 38) (Some 9),
      mkNode ''Identifier'' (41, 42) (Some 9)]"

definition staticC_variable :: variable where
  "staticC_variable =
     \<lparr>v_scope = 1, v_defs = [\<lparr>d_type = ''ClassName'', d_name = 2, d_node = 1\<rparr>]\<rparr>"

definition staticC_bar :: reference where
  "staticC_bar = \<lparr>r_identifier = 10, r_from = 3, r_resolved = None, r_init = False\<rparr>"

definition staticC_use :: reference where
  "staticC_use =
     \<lparr>r_identifier = 11, r_from = 3, r_resolved = Some staticC_variable, r_init = False\<rparr>"

definition staticC_scopes :: scopes where
  "staticC_scopes = scopesOf
     [mkScope ''global'' 0 None 0 [] [1],
      mkScope ''class'' 1 (Some 0) 0 [] [2, 3],
      mkScope ''class-field-initializer'' 6 (Some 1) 2 [] [],
      mkScope ''class-static-block'' 7 (Some 1) 3 [staticC_bar, staticC_use] []]"

subsection \<open>\<^verbatim>\<open>class C { m() { C; } }\<close>\<close>

definition methodC_ast :: ast where
  "methodC_ast = astOf
     [mkNode ''Program'' (0, 22) None,
      (mkNode ''ClassDeclaration'' (0, 22) (Some 0))\<lparr>n_body := BodyNode 3\<rparr>,
      mkNode ''Identifier'' (6, 7) (Some 1),
      (mkNode ''ClassBody'' (8, 22) (Some 1))\<lparr>n_body := BodyList [4]\<rparr>,
      (mkNode ''MethodDefinition'' (10, 20) (Some 3))\<lparr>n_value := Some 6\<rparr>,
      mkNode ''Identifier'' (10, 11) (Some 4),
      (mkNode ''FunctionExpression'' (11, 20) (Some 4))\<lparr>n_body := BodyNode 7\<rparr>,
      (mkNode ''BlockStatement'' (14, 20) (Some 6))\<lparr>n_body := BodyList [8]\<rparr>,
      mkNode ''ExpressionStatement'' (16, 18) (Some 7),
      mkNode ''Identifier'' (16, 17) (Some 8)]"

definition methodC_variable :: variable where
  "methodC_variable =
     \<lparr>v_scope = 1, v_defs = [\<lparr>d_type = ''ClassName'', d_name = 2, d_node = 1\<rparr>]\<rparr>"

definition methodC_use :: reference where
  "methodC_use =
     \<lparr>r_identifier = 9, r_from = 2, r_resolved = Some methodC_variable, r_init = False\<rparr>"

definition methodC_scopes :: scopes where
  "methodC_scopes = scopesOf
     [mkScope ''global'' 0 None 0 [] [1],
      mkScope ''class'' 1 (Some 0) 0 [] [2],
      mkScope ''function'' 6 (Some 1) 2 [methodC_use] []]"

subsection \<open>\<^verbatim>\<open>const x = 1; class C { field = x; }\<close>\<close>

definition fieldX_ast :: ast where
  "fieldX_ast = astOf
     [mkNode ''Program'' (0, 35) None,
      mkNode ''VariableDeclaration'' (0, 12) (Some 0),
      (mkNode ''VariableDeclarator'' (6, 11) (Some 1))\<lparr>n_init := Some 4\<rparr>,
      mkNode ''Identifier'' (6, 7) (Some 2),
      mkNode ''Literal'' (10, 11) (Some 2),
      (mkNode ''ClassDeclaration'' (13, 35) (Some 0))\<lparr>n_body := BodyNode 7\<rparr>,
      mkNode ''Identifier'' (19, 20) (Some 5),
      (mkNode ''ClassBody'' (21, 35) (Some 5))\<lparr>n_body := BodyList [8]\<rparr>,
      (mkNode ''PropertyDefinition'' (23, 33) (Some 7))\<lparr>n_value := Some 10\<rparr>,
      mkNode ''Identifier'' (23, 28) (Some 8),
      mkNode ''Identifier'' (31, 32) (Some 8)]"

definition fieldX_variable :: variable where
  "fieldX_variable =
     \<lparr>v_scope = 0, v_defs = [\<lparr>d_type = ''Variable'', d_name = 3, d_node = 2\<rparr>]\<rparr>"

definition fieldX_init :: reference where
  "fieldX_init =
     \<lparr>r_identifier = 3, r_from = 0, r_resolved = Some fieldX_variable, r_init = True\<rparr>"

definition fieldX_use :: reference where
  "fieldX_use =
     \<lparr>r_identifier = 10, r_from = 2, r_resolved = Some fieldX_variable, r_init = False\<rparr>"

definition fieldX_scopes :: scopes where
  "fieldX_scopes = scopesOf
     [mkScope ''global'' 0 None 0 [fieldX_init] [1],
      mkScope ''class'' 5 (Some 0) 0 [] [2],
      mkScope ''class-field-initializer'' 10 (Some 1) 2 [fieldX_use] []]"

subsection \<open>\<^verbatim>\<open>var f = function (b = 1) { b; };\<close>\<close>

definition paramB_ast :: ast where
  "paramB_ast = astOf
     [mkNode ''Program'' (0, 32) None,
      mkNode ''VariableDeclaration'' (0, 32) (Some 0),
      (mkNode ''VariableDeclarator'' (4, 31) (Some 1))\<lparr>n_init := Some 4\<rparr>,
      mkNode ''Identifier'' (4, 5) (Some 2),
      (mkNode ''FunctionExpression'' (8, 31) (Some 2))\<lparr>n_body := BodyNode 8\<rparr>,
      (mkNode ''AssignmentPattern'' (18, 23) (Some 4))\<lparr>n_left := Some 6, n_right := Some 7\<rparr>,
      mkNode ''Identifier'' (18, 19) (Some 5),
      mkNode ''Literal'' (22, 23) (Some 5),
      (mkNode ''BlockStatement'' (25, 31) (Some 4))\<lparr>n_body := BodyList [9]\<rparr>,
      mkNode ''ExpressionStatement'' (27, 29) (Some 8),
      mkNode ''Identifier'' (27, 28) (Some 9)]"

definition paramB_f :: variable where
  "paramB_f = \<lparr>v_scope = 0, v_defs = [\<lparr>d_type = ''Variable'', d_name = 3, d_node = 2\<rparr>]\<rparr>"

definition paramB_variable :: variable where
  "paramB_variable =
     \<lparr>v_scope = 1, v_defs = [\<lparr>d_type = ''Parameter'', d_name = 6, d_node = 4\<rparr>]\<rparr>"

definition paramB_use :: reference where
  "paramB_use =
     \<lparr>r_identifier = 10, r_from = 1, r_resolved = Some paramB_variable, r_init = False\<rparr>"

definition paramB_scopes :: scopes where
  "paramB_scopes = scopesOf
     [mkScope ''global'' 0 None 0
        [\<lparr>r_identifier = 3, r_from = 0, r_resolved = Some paramB_f, r_init = True\<rparr>] [1],
      mkScope ''function'' 4 (Some 0) 1
        [\<lparr>r_identifier = 6, r_from = 1, r_resolved = Some paramB_variable, r_init = True\<rparr>,
         paramB_use] []]"

subsection \<open>\<^verbatim>\<open>function f(){ arguments; }\<close>\<close>






subsection \<open>\<^verbatim>\<open>"a";\<close>, \<^verbatim>\<open>("a");\<close> and a template literal statement\<close>





subsection \<open>Nested labels\<close>

text \<open>
  For the no-labels rule, the tree of
  \<^verbatim>\<open>a: while (x) { b: { break a; break; } continue a; } break b;\<close>
  and the loop statement types as \<open>isLoop\<close>.
\<close>

definition nested_labels :: stmt where
  "nested_labels =
     Other ''Program''
       [LabeledStatement ''a''
          (Other ''WhileStatement''
             [Other ''Identifier'' [],
              Other ''BlockStatement''
                [LabeledStatement ''b''
                   (Other ''BlockStatement'' [BreakStatement (Some ''a''), BreakStatement None]),
                 ContinueStatement (Some ''a'')]]),
        BreakStatement (Some ''b'')]"

definition isLoopExample :: "stmt \<Rightarrow> bool" where
  "isLoopExample nd \<longleftrightarrow>
     nodeType nd \<in> set [''DoWhileStatement'', ''ForStatement'', ''ForInStatement'',
                         ''ForOfStatement'', ''WhileStatement'']"

section \<open>Properties of no-use-before-define\<close>

subsection \<open>References that initialize their variable\<close>

lemma andThen_eq_Some_Inr:
  "andThen m f = Some (Inr r) \<Longrightarrow> \<exists>v. m = Some (Inr v) \<and> f v = Some (Inr r)"
  by (auto simp: andThen_def split: option.splits sum.splits)

lemma shouldCheck_init: "r_init ref \<Longrightarrow> shouldCheck opts a ss ref = Some (Inr False)"
  by (simp add: shouldCheck_def)

lemma filterShouldCheck_kept:
  "filterShouldCheck opts a ss refs = Some (Inr kept) \<Longrightarrow>
   \<forall>r\<in>set kept. r \<in> set refs \<and> shouldCheck opts a ss r = Some (Inr True)"
proof (induction refs arbitrary: kept)
  case Nil
  then show ?case by simp
next
  case (Cons ref refs)
  from Cons.prems obtain keep where k: "shouldCheck opts a ss ref = Some (Inr keep)"
    and rest: "andThen (filterShouldCheck opts a ss refs)
                 (\<lambda>kept. Some (Inr (if keep then ref # kept else kept))) = Some (Inr kept)"
    by (auto dest: andThen_eq_Some_Inr)
  from rest obtain kept' where k': "filterShouldCheck opts a ss refs = Some (Inr kept')"
    and eq: "kept = (if keep then ref # kept' else kept')"
    by (auto dest: andThen_eq_Some_Inr)
  from Cons.IH [OF k'] k eq show ?case by auto
qed

lemma reportReferences_subset:
  "reportReferences a ss refs = Some (Inr reports) \<Longrightarrow> set reports \<subseteq> set refs"
proof (induction refs arbitrary: reports)
  case Nil
  then show ?case by simp
next
  case (Cons ref refs)
  from Cons.prems obtain b where
    rest: "andThen (reportReferences a ss refs)
                 (\<lambda>reports. Some (Inr (if b then ref # reports else reports))) = Some (Inr reports)"
    by (auto dest: andThen_eq_Some_Inr)
  from rest obtain reps' where k': "reportReferences a ss refs = Some (Inr reps')"
    and eq: "reports = (if b then ref # reps' else reps')"
    by (auto dest: andThen_eq_Some_Inr)
  from Cons.IH [OF k'] eq show ?case by auto
qed

lemma checkReferences_reports:
  assumes "checkReferences opts a ss refs = Some (Inr reports)" and "r \<in> set reports"
  shows "r \<in> set refs \<and> shouldCheck opts a ss r = Some (Inr True)"
proof -
  from assms(1) obtain kept where k: "filterShouldCheck opts a ss refs = Some (Inr kept)"
    and rp: "reportReferences a ss kept = Some (Inr reports)"
    unfolding checkReferences_def by (auto dest: andThen_eq_Some_Inr)
  from reportReferences_subset [OF rp] assms(2) have "r \<in> set kept" by auto
  with filterShouldCheck_kept [OF k] show ?thesis by blast
qed

lemma appendReports_eq_Inr:
  "appendReports reps r = Inr reports \<longleftrightarrow> (\<exists>later. r = Inr later \<and> reports = reps @ later)"
  by (cases r) (auto simp: appendReports_def)

lemma checkReferencesInScopes_reports_aux:
  assumes "checkReferencesInScopes check ss todo = Some res"
  shows "(\<forall>refs reports r. check refs = Some (Inr reports) \<longrightarrow> r \<in> set reports \<longrightarrow> Q r) \<longrightarrow>
         (\<forall>reports. res = Inr reports \<longrightarrow> (\<forall>r\<in>set reports. Q r))"
proof (rule checkReferencesInScopes.raw_induct
    [where P = "\<lambda>check ss todo res.
       (\<forall>refs reports r. check refs = Some (Inr reports) \<longrightarrow> r \<in> set reports \<longrightarrow> Q r) \<longrightarrow>
       (\<forall>reports. res = Inr reports \<longrightarrow> (\<forall>r\<in>set reports. Q r))", OF _ assms])
  fix crs check' ss todo res
  assume IH: "\<And>c s t y. crs c s t = Some y \<Longrightarrow>
       (\<forall>refs reports r. c refs = Some (Inr reports) \<longrightarrow> r \<in> set reports \<longrightarrow> Q r) \<longrightarrow>
       (\<forall>reports. y = Inr reports \<longrightarrow> (\<forall>r\<in>set reports. Q r))"
    and body: "(case todo of [] \<Rightarrow> Some (Inr [])
      | sc # rest \<Rightarrow>
          case check' (s_references (ss sc)) of None \<Rightarrow> None
          | Some (Inl e) \<Rightarrow> Some (Inl e)
          | Some (Inr reports) \<Rightarrow>
              Option.bind (crs check' ss (s_childScopes (ss sc) @ rest))
               (\<lambda>r'. Some (appendReports reports r'))) = Some res"
  show "(\<forall>refs reports r. check' refs = Some (Inr reports) \<longrightarrow> r \<in> set reports \<longrightarrow> Q r) \<longrightarrow>
       (\<forall>reports. res = Inr reports \<longrightarrow> (\<forall>r\<in>set reports. Q r))"
  proof (intro impI allI)
    fix reports
    assume Qc: "\<forall>refs reports r. check' refs = Some (Inr reports) \<longrightarrow> r \<in> set reports \<longrightarrow> Q r"
      and res: "res = Inr reports"
    show "\<forall>r\<in>set reports. Q r"
    proof (cases todo)
      case Nil
      with body res show ?thesis by auto
    next
      case (Cons sc rest)
      with body res obtain reps later where
        c: "check' (s_references (ss sc)) = Some (Inr reps)" and
        l: "crs check' ss (s_childScopes (ss sc) @ rest) = Some (Inr later)" and
        e: "reports = reps @ later"
        by (auto simp: appendReports_eq_Inr Option.bind_eq_Some_conv split: option.splits sum.splits)
      from IH [OF l] Qc have "\<forall>r\<in>set later. Q r" by blast
      moreover from Qc c have "\<forall>r\<in>set reps. Q r" by blast
      ultimately show ?thesis using e by auto
    qed
  qed
qed

lemma checkReferencesInScopes_reports2:
  assumes "checkReferencesInScopes check ss todo = Some (Inr reports)"
    and "\<And>refs reps r. check refs = Some (Inr reps) \<Longrightarrow> r \<in> set reps \<Longrightarrow> Q r"
  shows "\<forall>r\<in>set reports. Q r"
  using checkReferencesInScopes_reports_aux [OF assms(1), of Q] assms(2) by blast


text \<open>
  C3. A reference whose \<open>init\<close> flag is true is never reported: \<open>shouldCheck\<close> returns
  \<open>false\<close> for it whatever the options, its position and its resolution are, and no run of
  \<open>checkReferencesInScope\<close> that returns has it among its reports.
\<close>

theorem init_reference_never_reported:
  "(r_init ref \<longrightarrow> shouldCheck opts a ss ref = Some (Inr False)) \<and>
   (checkReferencesInScope opts a ss sc = Some (Inr reports) \<longrightarrow> (\<forall>r\<in>set reports. \<not> r_init r))"
proof (intro conjI impI)
  assume "r_init ref"
  then show "shouldCheck opts a ss ref = Some (Inr False)" by (rule shouldCheck_init)
next
  assume run: "checkReferencesInScope opts a ss sc = Some (Inr reports)"
  have "\<And>refs reps r. checkReferences opts a ss refs = Some (Inr reps) \<Longrightarrow> r \<in> set reps \<Longrightarrow> \<not> r_init r"
    using checkReferences_reports shouldCheck_init by fastforce
  from checkReferencesInScopes_reports2 [OF run [unfolded checkReferencesInScope_def], of "\<lambda>r. \<not> r_init r", OF this]
  show "\<forall>r\<in>set reports. \<not> r_init r" by simp
qed

theorem init_reference_never_reported_witness:
  "r_init varA_init \<and>
   shouldCheck defaultOptions varA_ast varA_scopes varA_init = Some (Inr False) \<and>
   checkReferencesInScope defaultOptions varA_ast varA_scopes 0 = Some (Inr [varA_use]) \<and>
   \<not> r_init varA_use"
proof -
  have i: "r_init varA_init"
    by (simp add: varA_init_def)
  have run: "checkReferencesInScope defaultOptions varA_ast varA_scopes 0 = Some (Inr [varA_use])"
    by code_simp
  from init_reference_never_reported
         [where ref = varA_init and opts = defaultOptions and a = varA_ast and ss = varA_scopes
            and sc = 0 and reports = "[varA_use]"]
       i run
  show ?thesis by simp
qed

subsection \<open>Execution contexts\<close>

lemma scopesWellFormed_at:
  "scopesWellFormed a ss n \<Longrightarrow> sc < n \<Longrightarrow> scopeWellFormed a ss sc"
  by (simp add: scopesWellFormed_def list_all_iff)

lemma loop_returns:
  assumes wf: "scopesWellFormed a ss n"
  shows "sc < n \<Longrightarrow> \<exists>b. isFromSeparateExecutionContext_loop a ss var sc = Some (Inr b)"
proof (induction sc rule: less_induct)
  case (less sc)
  let ?vs = "s_variableScope (ss sc)"
  have wsc: "scopeWellFormed a ss sc" using wf less.prems by (rule scopesWellFormed_at)
  then have vs_le: "?vs \<le> sc" by (simp add: scopeWellFormed_def)
  then have "?vs < n" using less.prems by simp
  with wf have wvs: "scopeWellFormed a ss ?vs" by (rule scopesWellFormed_at)
  show ?case
  proof (cases "s_variableScope (ss (v_scope var)) = ?vs")
    case True
    then show ?thesis
      by (subst isFromSeparateExecutionContext_loop.simps) auto
  next
    case differ: False
    show ?thesis
    proof (cases "isClassStaticInitializerScope a (ss ?vs)")
      case (Inl e)
      with wvs show ?thesis
        by (auto simp: isClassStaticInitializerScope_def scopeWellFormed_def
                 split: if_splits option.splits)
    next
      case (Inr transparent)
      show ?thesis
      proof (cases transparent)
        case False
        with Inr differ show ?thesis
          by (subst isFromSeparateExecutionContext_loop.simps) auto
      next
        case True
        with Inr have "s_type (ss ?vs) = ''class-static-block'' \<or>
                       s_type (ss ?vs) = ''class-field-initializer''"
          by (auto simp: isClassStaticInitializerScope_def split: if_splits)
        with wvs obtain up where up: "s_upper (ss ?vs) = Some up" and lt: "up < ?vs"
          by (auto simp: scopeWellFormed_def split: option.splits)
        from lt vs_le have "up < sc" by simp
        moreover from this less.prems have "up < n" by simp
        ultimately obtain b where
          "isFromSeparateExecutionContext_loop a ss var up = Some (Inr b)"
          using less.IH by blast
        with Inr True differ up show ?thesis
          by (subst isFromSeparateExecutionContext_loop.simps) auto
      qed
    qed
  qed
qed

lemma staticInitializerScope_iff:
  "staticInitializerScope a sc \<longleftrightarrow> isClassStaticInitializerScope a sc = Inr True"
  by (auto simp: staticInitializerScope_def isClassStaticInitializerScope_def
           split: option.splits)

lemma reaches_loop_false:
  assumes "reachesBinding (staticInitializerScope a) ss (s_variableScope (ss (v_scope var))) sc"
  shows "isFromSeparateExecutionContext_loop a ss var sc = Some (Inr False)"
  using assms
proof (induction rule: reachesBinding.induct)
  case (arrived sc)
  then show ?case
    by (subst isFromSeparateExecutionContext_loop.simps) simp
next
  case (through sc up)
  then show ?case
    by (subst isFromSeparateExecutionContext_loop.simps)
       (simp add: staticInitializerScope_iff)
qed

lemma loop_false_reaches_aux:
  assumes "isFromSeparateExecutionContext_loop a ss var sc = Some r"
  shows "r = Inr False \<longrightarrow>
         reachesBinding (staticInitializerScope a) ss (s_variableScope (ss (v_scope var))) sc"
proof (rule isFromSeparateExecutionContext_loop.raw_induct
    [where P = "\<lambda>a ss var sc r. r = Inr False \<longrightarrow>
         reachesBinding (staticInitializerScope a) ss (s_variableScope (ss (v_scope var))) sc",
     OF _ assms])
  fix loop a ss var sc r
  assume IH: "\<And>a ss var sc r. loop a ss var sc = Some r \<Longrightarrow> r = Inr False \<longrightarrow>
         reachesBinding (staticInitializerScope a) ss (s_variableScope (ss (v_scope var))) sc"
    and body: "(if s_variableScope (ss (v_scope var)) \<noteq> s_variableScope (ss sc)
      then case isClassStaticInitializerScope a (ss (s_variableScope (ss sc))) of
           Inl e \<Rightarrow> Some (Inl e)
           | Inr transparent \<Rightarrow>
               if transparent
               then case s_upper (ss (s_variableScope (ss sc))) of
                    None \<Rightarrow> Some (Inl TypeError)
                    | Some up \<Rightarrow> loop a ss var up
               else Some (Inr True)
      else Some (Inr False)) = Some r"
  show "r = Inr False \<longrightarrow>
         reachesBinding (staticInitializerScope a) ss (s_variableScope (ss (v_scope var))) sc"
  proof
    assume r: "r = Inr False"
    show "reachesBinding (staticInitializerScope a) ss (s_variableScope (ss (v_scope var))) sc"
    proof (cases "s_variableScope (ss (v_scope var)) = s_variableScope (ss sc)")
      case True
      then show ?thesis by (intro reachesBinding.arrived) (rule sym)
    next
      case False
      with body have b2: "(case isClassStaticInitializerScope a (ss (s_variableScope (ss sc))) of
           Inl e \<Rightarrow> Some (Inl e)
           | Inr transparent \<Rightarrow>
               if transparent
               then case s_upper (ss (s_variableScope (ss sc))) of
                    None \<Rightarrow> Some (Inl TypeError)
                    | Some up \<Rightarrow> loop a ss var up
               else Some (Inr True)) = Some r"
        by simp
      from b2 r have t: "isClassStaticInitializerScope a (ss (s_variableScope (ss sc))) = Inr True"
        by (cases "isClassStaticInitializerScope a (ss (s_variableScope (ss sc)))")
           (simp_all split: if_splits)
      with b2 have b3: "(case s_upper (ss (s_variableScope (ss sc))) of
                    None \<Rightarrow> Some (Inl TypeError)
                    | Some up \<Rightarrow> loop a ss var up) = Some r"
        by simp
      from b3 r obtain up where
        u: "s_upper (ss (s_variableScope (ss sc))) = Some up" and
        l: "loop a ss var up = Some (Inr False)"
        by (cases "s_upper (ss (s_variableScope (ss sc)))") simp_all
      from IH [OF l] have up: "reachesBinding (staticInitializerScope a) ss
                             (s_variableScope (ss (v_scope var))) up" by simp
      from t have tr: "staticInitializerScope a (ss (s_variableScope (ss sc)))"
        by (simp only: staticInitializerScope_iff)
      from False have ne: "s_variableScope (ss sc) \<noteq> s_variableScope (ss (v_scope var))"
        by (rule not_sym)
      show ?thesis
        by (rule reachesBinding.through [OF ne tr u up])
    qed
  qed
qed

lemma loop_false_iff:
  "isFromSeparateExecutionContext_loop a ss var sc = Some (Inr False) \<longleftrightarrow>
   reachesBinding (staticInitializerScope a) ss (s_variableScope (ss (v_scope var))) sc"
  using loop_false_reaches_aux reaches_loop_false by blast


lemma isFromSeparateExecutionContext_returns:
  assumes "scopesWellFormed a ss n" and "r_from ref < n" and "r_resolved ref = Some var"
  shows "isFromSeparateExecutionContext a ss ref =
           Some (Inr (\<not> reachesBinding (staticInitializerScope a) ss
                          (s_variableScope (ss (v_scope var))) (r_from ref)))"
proof -
  from loop_returns [OF assms(1,2)] obtain b where
    b: "isFromSeparateExecutionContext_loop a ss var (r_from ref) = Some (Inr b)"
    by blast
  with loop_false_iff [of a ss var "r_from ref"]
  have "b = (\<not> reachesBinding (staticInitializerScope a) ss
                (s_variableScope (ss (v_scope var))) (r_from ref))"
    by auto
  with b assms(3) show ?thesis
    by (simp add: isFromSeparateExecutionContext_def)
qed

text \<open>
  C2, amended. For a reference with a resolved variable, \<open>isFromSeparateExecutionContext\<close>
  returns \<open>false\<close> exactly when the ascent from the scope of the reference through the
  enclosing variable scopes reaches the variable scope of the binding, where the transparent
  scopes are the class static block scopes and the initializer scopes of \<^emph>\<open>static\<close> fields.
  On a well-formed scope store the function always returns, and returns \<open>true\<close> when the
  ascent meets any other variable scope first. The initializer scope of a field that is not
  static is such a scope: with every field initializer scope transparent, as the claim has
  it, the binding of \<open>x\<close> is reached from \<^verbatim>\<open>field = x\<close>, and the code returns \<open>true\<close>.
\<close>

theorem separate_context_iff_binding_not_reached:
  assumes "r_resolved ref = Some var"
  shows "(isFromSeparateExecutionContext a ss ref = Some (Inr False) \<longleftrightarrow>
          reachesBinding (staticInitializerScope a) ss
            (s_variableScope (ss (v_scope var))) (r_from ref)) \<and>
         (scopesWellFormed a ss n \<and> r_from ref < n \<longrightarrow>
          isFromSeparateExecutionContext a ss ref =
            Some (Inr (\<not> reachesBinding (staticInitializerScope a) ss
                           (s_variableScope (ss (v_scope var))) (r_from ref))))"
  using assms isFromSeparateExecutionContext_returns [of a ss n ref var]
  by (simp add: isFromSeparateExecutionContext_def loop_false_iff)

lemma staticC_wf: "scopesWellFormed staticC_ast staticC_scopes 4"
  by code_simp

theorem separate_context_iff_binding_not_reached_witness:
  "r_resolved staticC_use = Some staticC_variable \<and>
   scopesWellFormed staticC_ast staticC_scopes 4 \<and> r_from staticC_use < 4 \<and>
   isFromSeparateExecutionContext staticC_ast staticC_scopes staticC_use = Some (Inr False) \<and>
   reachesBinding (staticInitializerScope staticC_ast) staticC_scopes
     (s_variableScope (staticC_scopes (v_scope staticC_variable))) (r_from staticC_use)"
proof -
  have r: "r_resolved staticC_use = Some staticC_variable"
    by (simp add: staticC_use_def)
  have f: "r_from staticC_use < 4"
    by (simp add: staticC_use_def)
  have v: "isFromSeparateExecutionContext staticC_ast staticC_scopes staticC_use = Some (Inr False)"
    by code_simp
  from separate_context_iff_binding_not_reached [OF r, of staticC_ast staticC_scopes 4]
       r f v staticC_wf
  show ?thesis by blast
qed

theorem every_field_initializer_transparent_counterexample:
  "r_resolved fieldX_use = Some fieldX_variable \<and>
   reachesBinding initializerScope fieldX_scopes
     (s_variableScope (fieldX_scopes (v_scope fieldX_variable))) (r_from fieldX_use) \<and>
   isFromSeparateExecutionContext fieldX_ast fieldX_scopes fieldX_use = Some (Inr True)"
proof -
  have r: "r_resolved fieldX_use = Some fieldX_variable"
    by (simp add: fieldX_use_def)
  have v: "isFromSeparateExecutionContext fieldX_ast fieldX_scopes fieldX_use = Some (Inr True)"
    by code_simp
  have top: "reachesBinding initializerScope fieldX_scopes 0 1"
    by (rule reachesBinding.arrived) code_simp
  have "reachesBinding initializerScope fieldX_scopes 0 2"
  proof (rule reachesBinding.through [where up = 1])
    show "s_variableScope (fieldX_scopes 2) \<noteq> 0" by code_simp
    show "initializerScope (fieldX_scopes (s_variableScope (fieldX_scopes 2)))" by code_simp
    show "s_upper (fieldX_scopes (s_variableScope (fieldX_scopes 2))) = Some 1" by code_simp
    show "reachesBinding initializerScope fieldX_scopes 0 1" by (rule top)
  qed
  moreover have "s_variableScope (fieldX_scopes (v_scope fieldX_variable)) = 0" by code_simp
  moreover have "r_from fieldX_use = 2" by code_simp
  ultimately show ?thesis using r v by simp
qed

subsection \<open>References to a class inside the class\<close>

lemma andThen_Some_Inr [simp]: "andThen (Some (Inr v)) f = f v"
  by (simp add: andThen_def)

lemma andThen_Some_Inl [simp]: "andThen (Some (Inl e)) f = Some (Inl e)"
  by (simp add: andThen_def)

lemma andThen_None [simp]: "andThen None f = None"
  by (simp add: andThen_def)

lemma isEvaluatedDuringInitialization_ClassName:
  assumes "isFromSeparateExecutionContext a ss ref = Some (Inr separate)"
    and "r_resolved ref = Some var" and "v_defs var = d # ds" and "d_type d = ''ClassName''"
    and "n_body (a (d_node d)) = BodyNode classBody"
    and "isInClassStaticInitializerRange a classBody (snd (n_range (a (r_identifier ref)))) =
           Inr inStatic"
  shows "isEvaluatedDuringInitialization a ss ref =
           Some (Inr (\<not> separate \<and>
                      isInRange a (Some (d_node d)) (snd (n_range (a (r_identifier ref)))) \<and>
                      \<not> inStatic))"
  using assms by (simp add: isEvaluatedDuringInitialization_def Let_def)

lemma isInRange_within:
  assumes "isInRange a (Some inner) location"
    and "fst (n_range (a outer)) \<le> fst (n_range (a inner))"
    and "snd (n_range (a inner)) \<le> snd (n_range (a outer))"
  shows "isInRange a (Some outer) location"
  using assms by (simp add: isInRange_def)

text \<open>
  C1, amended. Let a reference resolve to a variable whose first definition is a
  \<open>ClassName\<close>, on a well-formed scope store. If the end of its identifier lies inside a
  static initializer of the class (a static block, or the value of a static field),
  \<open>isEvaluatedDuringInitialization\<close> returns \<open>false\<close>. If it lies inside the range of the
  class body and outside every static initializer, the function returns \<open>true\<close> when the
  reference is not from a separate execution context, and \<open>false\<close> when it is (a reference
  inside a method, as in \<^verbatim>\<open>class C { m() { C; } }\<close>). For
  \<^verbatim>\<open>class C { static foo = 1; static { bar = C; } }\<close> nothing is reported.
\<close>

theorem class_reference_in_static_initializer:
  assumes "r_resolved ref = Some var" and "v_defs var = d # ds" and "d_type d = ''ClassName''"
    and "n_body (a (d_node d)) = BodyNode classBody"
    and "fst (n_range (a (d_node d))) \<le> fst (n_range (a classBody))"
    and "snd (n_range (a classBody)) \<le> snd (n_range (a (d_node d)))"
    and "scopesWellFormed a ss n" and "r_from ref < n"
    and "location = snd (n_range (a (r_identifier ref)))"
  shows "(isInClassStaticInitializerRange a classBody location = Inr True \<longrightarrow>
            isEvaluatedDuringInitialization a ss ref = Some (Inr False)) \<and>
         (isInRange a (Some classBody) location \<and>
          isInClassStaticInitializerRange a classBody location = Inr False \<longrightarrow>
            isEvaluatedDuringInitialization a ss ref =
              Some (Inr (isFromSeparateExecutionContext a ss ref = Some (Inr False)))) \<and>
         checkReferencesInScope defaultOptions staticC_ast staticC_scopes 0 = Some (Inr [])"
proof -
  let ?reached = "reachesBinding (staticInitializerScope a) ss
                    (s_variableScope (ss (v_scope var))) (r_from ref)"
  have sep: "isFromSeparateExecutionContext a ss ref = Some (Inr (\<not> ?reached))"
    using assms(7,8,1) by (rule isFromSeparateExecutionContext_returns)
  have inside: "isInClassStaticInitializerRange a classBody location = Inr True \<Longrightarrow>
      isEvaluatedDuringInitialization a ss ref = Some (Inr False)"
    using isEvaluatedDuringInitialization_ClassName [OF sep assms(1-4), of True] assms(9)
    by simp
  have outside: "isInRange a (Some classBody) location \<Longrightarrow>
      isInClassStaticInitializerRange a classBody location = Inr False \<Longrightarrow>
      isEvaluatedDuringInitialization a ss ref =
        Some (Inr (isFromSeparateExecutionContext a ss ref = Some (Inr False)))"
    using isEvaluatedDuringInitialization_ClassName [OF sep assms(1-4), of False]
      isInRange_within [OF _ assms(5,6)] assms(9) sep
    by simp
  have example: "checkReferencesInScope defaultOptions staticC_ast staticC_scopes 0 = Some (Inr [])"
    by code_simp
  from inside outside example show ?thesis by blast
qed

theorem class_reference_in_static_initializer_witness:
  "r_resolved staticC_use = Some staticC_variable \<and>
   v_defs staticC_variable = [\<lparr>d_type = ''ClassName'', d_name = 2, d_node = 1\<rparr>] \<and>
   n_body (staticC_ast 1) = BodyNode 3 \<and>
   scopesWellFormed staticC_ast staticC_scopes 4 \<and>
   isInClassStaticInitializerRange staticC_ast 3 42 = Inr True \<and>
   isEvaluatedDuringInitialization staticC_ast staticC_scopes staticC_use = Some (Inr False)"
proof -
  have r: "r_resolved staticC_use = Some staticC_variable"
    by (simp add: staticC_use_def)
  have d: "v_defs staticC_variable = [\<lparr>d_type = ''ClassName'', d_name = 2, d_node = 1\<rparr>]"
    by (simp add: staticC_variable_def)
  have t: "d_type \<lparr>d_type = ''ClassName'', d_name = 2, d_node = 1\<rparr> = ''ClassName''"
    by simp
  have b: "n_body (staticC_ast (d_node \<lparr>d_type = ''ClassName'', d_name = 2, d_node = 1\<rparr>)) =
             BodyNode 3"
    by code_simp
  have lo: "fst (n_range (staticC_ast (d_node \<lparr>d_type = ''ClassName'', d_name = 2, d_node = 1\<rparr>)))
              \<le> fst (n_range (staticC_ast 3))"
    by code_simp
  have hi: "snd (n_range (staticC_ast 3))
              \<le> snd (n_range (staticC_ast (d_node \<lparr>d_type = ''ClassName'', d_name = 2, d_node = 1\<rparr>)))"
    by code_simp
  have f: "r_from staticC_use < 4"
    by (simp add: staticC_use_def)
  have l: "42 = snd (n_range (staticC_ast (r_identifier staticC_use)))"
    by code_simp
  have s: "isInClassStaticInitializerRange staticC_ast 3 42 = Inr True"
    by code_simp
  have b1: "n_body (staticC_ast 1) = BodyNode 3"
    by code_simp
  from class_reference_in_static_initializer [OF r d t b lo hi staticC_wf f l] s
  have "isEvaluatedDuringInitialization staticC_ast staticC_scopes staticC_use = Some (Inr False)"
    by blast
  with r d b1 staticC_wf s show ?thesis by blast
qed

theorem class_reference_in_method_counterexample:
  "r_resolved methodC_use = Some methodC_variable \<and>
   v_defs methodC_variable = [\<lparr>d_type = ''ClassName'', d_name = 2, d_node = 1\<rparr>] \<and>
   n_body (methodC_ast 1) = BodyNode 3 \<and>
   snd (n_range (methodC_ast (r_identifier methodC_use))) = 17 \<and>
   isInRange methodC_ast (Some 3) 17 \<and>
   isInClassStaticInitializerRange methodC_ast 3 17 = Inr False \<and>
   isEvaluatedDuringInitialization methodC_ast methodC_scopes methodC_use = Some (Inr False)"
  by code_simp

subsection \<open>The walk from the definition\<close>

lemma SENTINEL_TYPE_not_declarator:
  "SENTINEL_TYPE t \<Longrightarrow> t \<noteq> ''VariableDeclarator'' \<and> t \<noteq> ''AssignmentPattern''"
  by (auto simp: SENTINEL_TYPE_def)

lemma initializationWalk_sentinel:
  "SENTINEL_TYPE (n_type (a n)) \<Longrightarrow> initializationWalk a location (Some n) = Some (Inr False)"
  by (subst initializationWalk.simps) (simp add: SENTINEL_TYPE_not_declarator)

lemma initializationWalk_continues:
  "walkContinues a location n \<Longrightarrow>
   initializationWalk a location (Some n) = initializationWalk a location (n_parent (a n))"
  by (subst initializationWalk.simps) (simp add: walkContinues_def split: if_splits)

lemma initializationWalk_crosses_sentinel:
  "walkCrossesSentinel a location n path \<Longrightarrow>
   initializationWalk a location (Some n) = Some (Inr False)"
proof (induction path arbitrary: n)
  case Nil
  then show ?case by (simp add: initializationWalk_sentinel)
next
  case (Cons p path)
  then show ?case by (simp add: initializationWalk_continues)
qed

text \<open>
  C4. For a definition that is not a \<open>ClassName\<close>: when the walk upward from the parent of
  the definition's name comes to a node of a sentinel type (function, class, catch clause,
  import or export declaration), having gone on at every node before it, the loop ends and
  \<open>isEvaluatedDuringInitialization\<close> returns \<open>false\<close>, whatever lies above the sentinel. In
  \<^verbatim>\<open>var f = function (b = 1) { b; };\<close> the \<open>VariableDeclarator\<close> above the function
  holds the reference in its initializer and would give \<open>true\<close>; the walk for \<open>b\<close> ends at
  the function before it.
\<close>

theorem sentinel_ends_initialization_walk:
  assumes "r_resolved ref = Some var" and "v_defs var = d # ds" and "d_type d \<noteq> ''ClassName''"
    and "n_parent (a (d_name d)) = Some n"
    and "walkCrossesSentinel a (snd (n_range (a (r_identifier ref)))) n path"
    and "scopesWellFormed a ss k" and "r_from ref < k"
  shows "initializationWalk a (snd (n_range (a (r_identifier ref)))) (Some n) = Some (Inr False) \<and>
         isEvaluatedDuringInitialization a ss ref = Some (Inr False)"
proof -
  have w: "initializationWalk a (snd (n_range (a (r_identifier ref)))) (Some n) = Some (Inr False)"
    using assms(5) by (rule initializationWalk_crosses_sentinel)
  from isFromSeparateExecutionContext_returns [OF assms(6,7,1)] obtain separate where
    "isFromSeparateExecutionContext a ss ref = Some (Inr separate)" by blast
  with w assms(1-4) have "isEvaluatedDuringInitialization a ss ref = Some (Inr False)"
    by (simp add: isEvaluatedDuringInitialization_def Let_def)
  with w show ?thesis by simp
qed

lemma paramB_wf: "scopesWellFormed paramB_ast paramB_scopes 2"
  by code_simp

theorem sentinel_ends_initialization_walk_witness:
  "r_resolved paramB_use = Some paramB_variable \<and>
   v_defs paramB_variable = [\<lparr>d_type = ''Parameter'', d_name = 6, d_node = 4\<rparr>] \<and>
   n_parent (paramB_ast 6) = Some 5 \<and>
   snd (n_range (paramB_ast (r_identifier paramB_use))) = 28 \<and>
   walkCrossesSentinel paramB_ast 28 5 [4] \<and>
   n_type (paramB_ast 4) = ''FunctionExpression'' \<and>
   n_parent (paramB_ast 4) = Some 2 \<and>
   n_type (paramB_ast 2) = ''VariableDeclarator'' \<and>
   isInRange paramB_ast (n_init (paramB_ast 2)) 28 \<and>
   initializationWalk paramB_ast 28 (Some 2) = Some (Inr True) \<and>
   initializationWalk paramB_ast 28 (Some 5) = Some (Inr False) \<and>
   isEvaluatedDuringInitialization paramB_ast paramB_scopes paramB_use = Some (Inr False)"
proof -
  have r: "r_resolved paramB_use = Some paramB_variable"
    by (simp add: paramB_use_def)
  have d: "v_defs paramB_variable = [\<lparr>d_type = ''Parameter'', d_name = 6, d_node = 4\<rparr>]"
    by (simp add: paramB_variable_def)
  have t: "d_type \<lparr>d_type = ''Parameter'', d_name = 6, d_node = 4\<rparr> \<noteq> ''ClassName''"
    by simp
  have p: "n_parent (paramB_ast (d_name \<lparr>d_type = ''Parameter'', d_name = 6, d_node = 4\<rparr>)) = Some 5"
    by code_simp
  have l: "snd (n_range (paramB_ast (r_identifier paramB_use))) = 28"
    by code_simp
  have c: "walkCrossesSentinel paramB_ast 28 5 [4]"
    by code_simp
  have f: "r_from paramB_use < 2"
    by (simp add: paramB_use_def)
  have above: "n_parent (paramB_ast 6) = Some 5 \<and>
     n_type (paramB_ast 4) = ''FunctionExpression'' \<and>
     n_parent (paramB_ast 4) = Some 2 \<and>
     n_type (paramB_ast 2) = ''VariableDeclarator'' \<and>
     isInRange paramB_ast (n_init (paramB_ast 2)) 28 \<and>
     initializationWalk paramB_ast 28 (Some 2) = Some (Inr True)"
    by code_simp
  from sentinel_ends_initialization_walk [OF r d t p _ paramB_wf f, of "[4]"] c l
  have "initializationWalk paramB_ast 28 (Some 5) = Some (Inr False) \<and>
        isEvaluatedDuringInitialization paramB_ast paramB_scopes paramB_use = Some (Inr False)"
    by simp
  with r d l c above show ?thesis by blast
qed

subsection \<open>A variable initialized with itself\<close>

text \<open>
  C5. In \<^verbatim>\<open>var a = a;\<close> the reference on the right has \<open>init\<close> false and resolves to
  the declared variable; it is in the execution context of the declaration, the end of its
  identifier lies in the range of the initializer of the \<open>VariableDeclarator\<close>, so
  \<open>isEvaluatedDuringInitialization\<close> returns \<open>true\<close>, and the rule reports exactly this
  reference.
\<close>

theorem var_a_initialized_with_itself:
  "\<not> r_init varA_use \<and>
   r_resolved varA_use = Some varA_variable \<and>
   v_defs varA_variable = [\<lparr>d_type = ''Variable'', d_name = 3, d_node = 2\<rparr>] \<and>
   shouldCheck defaultOptions varA_ast varA_scopes varA_use = Some (Inr True) \<and>
   isFromSeparateExecutionContext varA_ast varA_scopes varA_use = Some (Inr False) \<and>
   n_parent (varA_ast 3) = Some 2 \<and> n_type (varA_ast 2) = ''VariableDeclarator'' \<and>
   isInRange varA_ast (n_init (varA_ast 2)) (snd (n_range (varA_ast (r_identifier varA_use)))) \<and>
   isEvaluatedDuringInitialization varA_ast varA_scopes varA_use = Some (Inr True) \<and>
   usedBeforeDefined varA_ast varA_scopes varA_use = Some (Inr True) \<and>
   checkReferencesInScope defaultOptions varA_ast varA_scopes 0 = Some (Inr [varA_use])"
  by code_simp

subsection \<open>The guards of shouldCheck\<close>





text \<open>
  C7. When the option \<open>functions\<close> is false and the first definition of the resolved
  variable of a reference is a \<open>FunctionName\<close>, \<open>shouldCheck\<close> returns \<open>false\<close>, without a
  look at the execution context or at the order in the text (the identifier has a parent, as
  every identifier of a tree has; this matters only when \<open>allowNamedExports\<close> is set). The
  string option \<open>"nofunc"\<close> sets \<open>functions\<close> to false, and for
  \<^verbatim>\<open>function f(){} f();\<close> nothing is reported under it.
\<close>

theorem functions_option_skips_function_names:
  assumes "\<not> o_functions opts" and "r_resolved ref = Some var" and "v_defs var = d # ds"
    and "d_type d = ''FunctionName''"
    and "o_allowNamedExports opts \<longrightarrow> n_parent (a (r_identifier ref)) \<noteq> None"
  shows "shouldCheck opts a ss ref = Some (Inr False) \<and>
         \<not> o_functions (parseOptions (OptString ''nofunc'')) \<and>
         checkReferencesInScope (parseOptions (OptString ''nofunc'')) funcF_ast funcF_scopes 0 =
           Some (Inr [])"
proof -
  have "shouldCheck opts a ss ref = Some (Inr False)"
    using assms by (auto simp: shouldCheck_def Let_def)
  moreover have "\<not> o_functions (parseOptions (OptString ''nofunc''))"
    by (simp add: parseOptions_def)
  moreover have "checkReferencesInScope (parseOptions (OptString ''nofunc'')) funcF_ast
                   funcF_scopes 0 = Some (Inr [])"
    by code_simp
  ultimately show ?thesis by blast
qed

theorem functions_option_skips_function_names_witness:
  "\<not> o_functions (parseOptions (OptString ''nofunc'')) \<and>
   \<not> o_allowNamedExports (parseOptions (OptString ''nofunc'')) \<and>
   r_resolved funcF_call = Some funcF_variable \<and>
   v_defs funcF_variable = [\<lparr>d_type = ''FunctionName'', d_name = 2, d_node = 1\<rparr>] \<and>
   shouldCheck (parseOptions (OptString ''nofunc'')) funcF_ast funcF_scopes funcF_call =
     Some (Inr False) \<and>
   shouldCheck defaultOptions funcF_ast funcF_scopes funcF_call = Some (Inr True)"
proof -
  have o: "\<not> o_functions (parseOptions (OptString ''nofunc''))"
    by (simp add: parseOptions_def)
  have n: "\<not> o_allowNamedExports (parseOptions (OptString ''nofunc''))"
    by (simp add: parseOptions_def)
  have r: "r_resolved funcF_call = Some funcF_variable"
    by (simp add: funcF_call_def)
  have d: "v_defs funcF_variable = [\<lparr>d_type = ''FunctionName'', d_name = 2, d_node = 1\<rparr>]"
    by (simp add: funcF_variable_def)
  have t: "d_type \<lparr>d_type = ''FunctionName'', d_name = 2, d_node = 1\<rparr> = ''FunctionName''"
    by simp
  have dflt: "shouldCheck defaultOptions funcF_ast funcF_scopes funcF_call = Some (Inr True)"
    by code_simp
  from functions_option_skips_function_names [OF o r d t, of funcF_ast funcF_scopes] n
  have "shouldCheck (parseOptions (OptString ''nofunc'')) funcF_ast funcF_scopes funcF_call =
          Some (Inr False)"
    by blast
  with o n r d dflt show ?thesis by blast
qed

section \<open>Properties of no-labels\<close>

lemma jumpsSeen_append: "jumpsSeen (xs @ ys) = jumpsSeen xs @ jumpsSeen ys"
  by (simp add: jumpsSeen_def)

lemma jumpsSeen_simps:
  "jumpsSeen [] = []"
  "jumpsSeen ((nd, st) # calls) =
     (if isJump nd then [(nd, map fst (scopeInfo st))] else []) @ jumpsSeen calls"
  by (simp_all add: jumpsSeen_def)

lemma noLabels_sel:
  "on_enter (noLabels opts isLoop) = labels_enter opts isLoop"
  "on_exit (noLabels opts isLoop) = labels_exit opts"
  by (simp_all add: noLabels_def)

lemma visitLabel_noLabels:
  "visitLabel (noLabels opts isLoop) lbl (st, calls) =
     Inr (st, calls @ (case lbl of None \<Rightarrow> [] | Some l \<Rightarrow> [(Other ''Identifier'' [], st)]))"
  by (cases lbl) (simp_all add: visitLabel_def visitLeaf_def noLabels_sel)

lemma traverseChildren_noLabels:
  assumes "\<And>c. c \<in> set cs \<Longrightarrow> restores opts isLoop c"
  shows "\<exists>st' calls'.
        traverseChildren (noLabels opts isLoop) cs (st, calls) = Inr (st', calls @ calls') \<and>
        scopeInfo st' = scopeInfo st \<and>
        jumpsSeen calls' = enclosingLabelsList (map fst (scopeInfo st)) cs"
  using assms
proof (induction cs arbitrary: st calls)
  case Nil
  show ?case by (simp add: jumpsSeen_simps)
next
  case (Cons c cs)
  from Cons.prems have "restores opts isLoop c" by simp
  then obtain st1 calls1 where
    t1: "traverse (noLabels opts isLoop) c (st, calls) = Inr (st1, calls @ calls1)" and
    s1: "scopeInfo st1 = scopeInfo st" and
    j1: "jumpsSeen calls1 = enclosingLabels (map fst (scopeInfo st)) c"
    unfolding restores_def by blast
  from Cons.IH [of st1 "calls @ calls1"] Cons.prems obtain st2 calls2 where
    t2: "traverseChildren (noLabels opts isLoop) cs (st1, calls @ calls1) =
           Inr (st2, (calls @ calls1) @ calls2)" and
    s2: "scopeInfo st2 = scopeInfo st1" and
    j2: "jumpsSeen calls2 = enclosingLabelsList (map fst (scopeInfo st1)) cs"
    by auto
  have "traverseChildren (noLabels opts isLoop) (c # cs) (st, calls) =
          Inr (st2, calls @ (calls1 @ calls2))"
    using t1 t2 by simp
  moreover have "scopeInfo st2 = scopeInfo st" using s1 s2 by simp
  moreover have "jumpsSeen (calls1 @ calls2) = enclosingLabelsList (map fst (scopeInfo st)) (c # cs)"
    using j1 j2 s1 by (simp add: jumpsSeen_append)
  ultimately show ?case by blast
qed

lemma restores_all: "restores opts isLoop nd"
proof (induction nd)
  case (LabeledStatement l b)
  show ?case
    unfolding restores_def
  proof (intro allI)
    fix st :: labels_state and calls :: "(stmt \<times> labels_state) list"
    let ?st1 = "st\<lparr>scopeInfo := (l, getBodyKind isLoop b) # scopeInfo st\<rparr>"
    let ?calls1 = "calls @ [(LabeledStatement l b, st), (Other ''Identifier'' [], ?st1)]"
    from LabeledStatement.IH obtain st2 calls2 where
      t: "traverse (noLabels opts isLoop) b (?st1, ?calls1) = Inr (st2, ?calls1 @ calls2)" and
      s: "scopeInfo st2 = scopeInfo ?st1" and
      j: "jumpsSeen calls2 = enclosingLabels (map fst (scopeInfo ?st1)) b"
      unfolding restores_def by blast
    let ?st3 = "(if \<not> isAllowed opts (getBodyKind isLoop b)
                then report ''unexpectedLabel'' (LabeledStatement l b) st2
                else st2)\<lparr>scopeInfo := scopeInfo st\<rparr>"
    have "traverse (noLabels opts isLoop) (LabeledStatement l b) (st, calls) =
            Inr (?st3, calls @ ([(LabeledStatement l b, st), (Other ''Identifier'' [], ?st1)] @ calls2))"
      using t s by (simp add: visitLabel_noLabels finish_def noLabels_sel)
    moreover have "scopeInfo ?st3 = scopeInfo st" by simp
    moreover have "jumpsSeen ([(LabeledStatement l b, st), (Other ''Identifier'' [], ?st1)] @ calls2)
        = enclosingLabels (map fst (scopeInfo st)) (LabeledStatement l b)"
      using j by (simp add: jumpsSeen_simps)
    ultimately show "\<exists>st' calls'.
        traverse (noLabels opts isLoop) (LabeledStatement l b) (st, calls) = Inr (st', calls @ calls') \<and>
        scopeInfo st' = scopeInfo st \<and>
        jumpsSeen calls' = enclosingLabels (map fst (scopeInfo st)) (LabeledStatement l b)"
      by blast
  qed
next
  case (BreakStatement lbl)
  show ?case
    unfolding restores_def
    by (cases lbl)
       (auto simp: visitLabel_noLabels finish_def noLabels_sel jumpsSeen_simps report_def)
next
  case (ContinueStatement lbl)
  show ?case
    unfolding restores_def
    by (cases lbl)
       (auto simp: visitLabel_noLabels finish_def noLabels_sel jumpsSeen_simps report_def)
next
  case (Other t cs)
  show ?case
    unfolding restores_def
  proof (intro allI)
    fix st :: labels_state and calls :: "(stmt \<times> labels_state) list"
    from traverseChildren_noLabels [of cs opts isLoop st "calls @ [(Other t cs, st)]"] Other.IH
    obtain st2 calls2 where
      t: "traverseChildren (noLabels opts isLoop) cs (st, calls @ [(Other t cs, st)]) =
            Inr (st2, (calls @ [(Other t cs, st)]) @ calls2)" and
      s: "scopeInfo st2 = scopeInfo st" and
      j: "jumpsSeen calls2 = enclosingLabelsList (map fst (scopeInfo st)) cs"
      by blast
    have "traverse (noLabels opts isLoop) (Other t cs) (st, calls) =
            Inr (st2, calls @ ((Other t cs, st) # calls2))"
      using t by (simp add: finish_def noLabels_sel)
    moreover have "jumpsSeen ((Other t cs, st) # calls2) =
        enclosingLabels (map fst (scopeInfo st)) (Other t cs)"
      using j by (simp add: jumpsSeen_simps)
    ultimately show "\<exists>st' calls'.
        traverse (noLabels opts isLoop) (Other t cs) (st, calls) = Inr (st', calls @ calls') \<and>
        scopeInfo st' = scopeInfo st \<and>
        jumpsSeen calls' = enclosingLabels (map fst (scopeInfo st)) (Other t cs)"
      using s by blast
  qed
qed

text \<open>
  C8. Under the depth-first traversal the rule never throws, the traversal of any subtree,
  so of any \<open>LabeledStatement\<close> from its entry handler to its exit handler, leaves
  \<open>scopeInfo\<close> as it found it, and every entry handler of a \<open>BreakStatement\<close> or
  \<open>ContinueStatement\<close> in the subtree runs with \<open>scopeInfo\<close> listing exactly the labels of the
  \<open>LabeledStatement\<close>s around that node, innermost first.
\<close>

theorem no_labels_scopeInfo_stack:
  "\<exists>st' calls'.
     traverse (noLabels opts isLoop) nd (st, calls) = Inr (st', calls @ calls') \<and>
     scopeInfo st' = scopeInfo st \<and>
     jumpsSeen calls' = enclosingLabels (map fst (scopeInfo st)) nd"
  using restores_all [of opts isLoop nd] unfolding restores_def by blast

theorem no_labels_scopeInfo_stack_witness:
  "\<exists>st' calls'.
     traverse (noLabels \<lparr>allowLoop = True, allowSwitch = False\<rparr> isLoopExample) nested_labels
       (\<lparr>scopeInfo = [], reported = []\<rparr>, []) = Inr (st', calls') \<and>
     scopeInfo st' = [] \<and>
     jumpsSeen calls' =
       [(BreakStatement (Some ''a''), [''b'', ''a'']),
        (BreakStatement None, [''b'', ''a'']),
        (ContinueStatement (Some ''a''), [''a'']),
        (BreakStatement (Some ''b''), [])]"
proof -
  have e: "enclosingLabels (map fst (scopeInfo \<lparr>scopeInfo = [], reported = []\<rparr>)) nested_labels =
       [(BreakStatement (Some ''a''), [''b'', ''a'']),
        (BreakStatement None, [''b'', ''a'']),
        (ContinueStatement (Some ''a''), [''a'']),
        (BreakStatement (Some ''b''), [])]"
    by code_simp
  from no_labels_scopeInfo_stack
         [of "\<lparr>allowLoop = True, allowSwitch = False\<rparr>" isLoopExample nested_labels
             "\<lparr>scopeInfo = [], reported = []\<rparr>" "[]"]
  show ?thesis unfolding e by simp
qed


section \<open>Properties of quotes\<close>

subsection \<open>convert\<close>

lemma convert_same_quote:
  "s \<noteq> [] \<Longrightarrow> hd s = quote setting \<Longrightarrow> convert setting s = s"
  by (cases s) (simp_all add: convert_def)

lemma convert_begins_with_quote:
  "convert setting s \<noteq> [] \<and> hd (convert setting s) = quote setting"
  by (cases s) (auto simp: convert_def Let_def)

lemma convert_convert: "convert setting (convert setting s) = convert setting s"
  using convert_begins_with_quote [of setting s] by (simp add: convert_same_quote)

text \<open>
  C10. For every quote setting and every string \<open>s\<close> of at least two code units: if \<open>s\<close>
  begins with the quote of the setting then \<open>convert\<close> returns \<open>s\<close>; the result of \<open>convert\<close>
  always begins with that quote; and converting twice gives the same as converting once.
\<close>

theorem convert_idempotent:
  "(2 \<le> length s \<and> s ! 0 = quote (QUOTE_SETTINGS q) \<longrightarrow> convert (QUOTE_SETTINGS q) s = s) \<and>
   (2 \<le> length s \<longrightarrow>
      convert (QUOTE_SETTINGS q) s ! 0 = quote (QUOTE_SETTINGS q) \<and>
      convert (QUOTE_SETTINGS q) (convert (QUOTE_SETTINGS q) s) = convert (QUOTE_SETTINGS q) s)"
proof (intro conjI impI)
  assume "2 \<le> length s \<and> s ! 0 = quote (QUOTE_SETTINGS q)"
  then have "s \<noteq> []" and "hd s = quote (QUOTE_SETTINGS q)"
    by (cases s; simp)+
  then show "convert (QUOTE_SETTINGS q) s = s"
    by (rule convert_same_quote)
next
  from convert_begins_with_quote [of "QUOTE_SETTINGS q" s]
  show "convert (QUOTE_SETTINGS q) s ! 0 = quote (QUOTE_SETTINGS q)"
    by (cases "convert (QUOTE_SETTINGS q) s") simp_all
next
  show "convert (QUOTE_SETTINGS q) (convert (QUOTE_SETTINGS q) s) = convert (QUOTE_SETTINGS q) s"
    by (rule convert_convert)
qed

theorem convert_idempotent_witness:
  "2 \<le> length [0x22, 0x69, 0x74, 0x27, 0x73, 0x22 :: 16 word] \<and>
   convert (QUOTE_SETTINGS Single) [0x22, 0x69, 0x74, 0x27, 0x73, 0x22] =
     [0x27, 0x69, 0x74, 0x5C, 0x27, 0x73, 0x27] \<and>
   [0x27, 0x69, 0x74, 0x5C, 0x27, 0x73, 0x27 :: 16 word] ! 0 = quote (QUOTE_SETTINGS Single) \<and>
   convert (QUOTE_SETTINGS Single) [0x27, 0x69, 0x74, 0x5C, 0x27, 0x73, 0x27] =
     [0x27, 0x69, 0x74, 0x5C, 0x27, 0x73, 0x27]"
proof -
  have c: "convert (QUOTE_SETTINGS Single) [0x22, 0x69, 0x74, 0x27, 0x73, 0x22] =
             [0x27, 0x69, 0x74, 0x5C, 0x27, 0x73, 0x27]"
    by code_simp
  have l: "2 \<le> length [0x22, 0x69, 0x74, 0x27, 0x73, 0x22 :: 16 word]"
    by simp
  from convert_idempotent [of "[0x22, 0x69, 0x74, 0x27, 0x73, 0x22]" Single] l
  have "convert (QUOTE_SETTINGS Single) [0x22, 0x69, 0x74, 0x27, 0x73, 0x22] ! 0 =
          quote (QUOTE_SETTINGS Single) \<and>
        convert (QUOTE_SETTINGS Single)
          (convert (QUOTE_SETTINGS Single) [0x22, 0x69, 0x74, 0x27, 0x73, 0x22]) =
          convert (QUOTE_SETTINGS Single) [0x22, 0x69, 0x74, 0x27, 0x73, 0x22]"
    by blast
  then have "[0x27, 0x69, 0x74, 0x5C, 0x27, 0x73, 0x27 :: 16 word] ! 0 =
               quote (QUOTE_SETTINGS Single) \<and>
             convert (QUOTE_SETTINGS Single) [0x27, 0x69, 0x74, 0x5C, 0x27, 0x73, 0x27] =
               [0x27, 0x69, 0x74, 0x5C, 0x27, 0x73, 0x27]"
    unfolding c .
  with c l show ?thesis by blast
qed

subsection \<open>Directive prologues\<close>






end
